theory Spec2Isabelle
  imports Complex_Main "HOL-Library.Multiset"
begin

section \<open>Match Extractor: the regular expression of \<open>getMatchResults\<close>\<close>

text \<open>
  A comment body is a JavaScript string, a sequence of 16-bit code units; the model
  has the code units below 256. The pattern is
  \<^verbatim>\<open>/(\w+)\s*[>beat]\s*(\w+)/gi\<close>: without the \<open>u\<close> flag, \<open>\w\<close> is
  \<open>[A-Za-z0-9_]\<close> also under \<open>i\<close>, and the class \<open>[>beat]\<close> under \<open>i\<close> holds
  the character \<open>>\<close> and the letters b, e, a, t in both cases, so both lie below
  128. \<open>\s\<close> below 256 is TAB, LF, VT, FF, CR, SPACE and NBSP; it also holds code
  units the model does not have (U+1680, U+2000 to U+200A, U+2028, U+2029, U+202F,
  U+205F, U+3000, U+FEFF). The pattern only asks for the class of each code unit, so
  a body with higher code units is matched as the body of the model that has SPACE
  for each of these and a character outside all three classes for any other, with
  the same captures (captures hold word characters only).\<close>

datatype cls = Word | Space | Sep

definition isWord :: "char \<Rightarrow> bool" where
  "isWord c = (let n = (of_char c :: nat) in
     (65 \<le> n \<and> n \<le> 90) \<or> (97 \<le> n \<and> n \<le> 122) \<or> (48 \<le> n \<and> n \<le> 57) \<or> n = 95)"

definition isSpace :: "char \<Rightarrow> bool" where
  "isSpace c = (let n = (of_char c :: nat) in (9 \<le> n \<and> n \<le> 13) \<or> n = 32 \<or> n = 160)"

definition isSep :: "char \<Rightarrow> bool" where
  "isSep c = (c = CHR ''>'' \<or> c = CHR ''b'' \<or> c = CHR ''e'' \<or> c = CHR ''a'' \<or> c = CHR ''t''
     \<or> c = CHR ''B'' \<or> c = CHR ''E'' \<or> c = CHR ''A'' \<or> c = CHR ''T'')"

fun inCls :: "cls \<Rightarrow> char \<Rightarrow> bool" where
  "inCls Word c = isWord c"
| "inCls Space c = isSpace c"
| "inCls Sep c = isSep c"

text \<open>
  The pieces of a pattern: a capturing group \<open>(X+)\<close>, a starred class \<open>X*\<close> and a
  single class \<open>X\<close>. Both quantifiers are greedy: the matcher first takes the
  longest run, and gives characters back one at a time while the rest of the pattern
  fails (backtracking); \<open>firstSome f lo n\<close> tries \<open>f n\<close>, \<open>f (n - 1)\<close>, ... down to
  \<open>f lo\<close> and returns the first success.\<close>

datatype item = CapPlus cls | Star cls | One cls

primrec firstSome :: "(nat \<Rightarrow> 'a option) \<Rightarrow> nat \<Rightarrow> nat \<Rightarrow> 'a option" where
  "firstSome f lo 0 = (if lo = 0 then f 0 else None)"
| "firstSome f lo (Suc n) =
     (if Suc n < lo then None
      else (case f (Suc n) of Some r \<Rightarrow> Some r | None \<Rightarrow> firstSome f lo n))"

fun mtch :: "item list \<Rightarrow> string \<Rightarrow> (string list \<times> string) option" where
  "mtch [] s = Some ([], s)"
| "mtch (One c # r) s =
     (case s of [] \<Rightarrow> None | x # xs \<Rightarrow> if inCls c x then mtch r xs else None)"
| "mtch (Star c # r) s =
     firstSome (\<lambda>n. mtch r (drop n s)) 0 (length (takeWhile (inCls c) s))"
| "mtch (CapPlus c # r) s =
     firstSome (\<lambda>n. map_option (\<lambda>(caps, rest). (take n s # caps, rest)) (mtch r (drop n s)))
       1 (length (takeWhile (inCls c) s))"

definition matchPattern :: "item list" where
  "matchPattern = [CapPlus Word, Star Space, One Sep, Star Space, CapPlus Word]"

fun minLen :: "item list \<Rightarrow> nat" where
  "minLen [] = 0"
| "minLen (CapPlus c # r) = Suc (minLen r)"
| "minLen (Star c # r) = minLen r"
| "minLen (One c # r) = Suc (minLen r)"

lemma firstSome_SomeD:
  "firstSome f lo n = Some r \<Longrightarrow> \<exists>k. lo \<le> k \<and> k \<le> n \<and> f k = Some r"
proof (induction n)
  case 0
  then show ?case by (auto split: if_splits)
next
  case (Suc n)
  show ?case
  proof (cases "f (Suc n)")
    case None
    with Suc.prems have "firstSome f lo n = Some r"
      by (simp split: if_splits)
    from Suc.IH [OF this] obtain k where "lo \<le> k" "k \<le> n" "f k = Some r"
      by blast
    then show ?thesis
      using le_SucI by blast
  next
    case (Some a)
    with Suc.prems have "\<not> Suc n < lo" "f (Suc n) = Some r"
      by (simp_all split: if_splits)
    then show ?thesis
      by (intro exI [of _ "Suc n"]) simp
  qed
qed

lemma mtch_consumes:
  "mtch p s = Some (caps, rest) \<Longrightarrow> length rest + minLen p \<le> length s"
proof (induction p s arbitrary: caps rest rule: mtch.induct)
  case (1 s)
  then show ?case by simp
next
  case (2 c r s)
  then show ?case by (cases s) (auto split: if_splits)
next
  case (3 c r s)
  from "3.prems" obtain k where k: "mtch r (drop k s) = Some (caps, rest)"
    by (auto dest: firstSome_SomeD)
  from "3.IH" [OF k] show ?case by simp
next
  case (4 c r s)
  from "4.prems" obtain k where k: "1 \<le> k" "k \<le> length (takeWhile (inCls c) s)"
    "map_option (\<lambda>(caps, rest). (take k s # caps, rest)) (mtch r (drop k s)) = Some (caps, rest)"
    by (auto dest!: firstSome_SomeD)
  then obtain caps' where m: "mtch r (drop k s) = Some (caps', rest)"
    by auto
  have "k \<le> length s"
    using k(2) length_takeWhile_le [of "inCls c" s] by linarith
  with "4.IH" [OF m] k(1) show ?case by simp
qed


lemma mtch_matchPattern_shorter:
  "mtch matchPattern s = Some (caps, rest) \<Longrightarrow> length rest < length s"
  using mtch_consumes [of matchPattern s caps rest] by (simp add: matchPattern_def)

text \<open>
  The loop \<^verbatim>\<open>while ((match = matchPattern.exec(body)) !== null)\<close>. With the
  \<open>g\<close> flag, \<open>exec\<close> starts at \<open>lastIndex\<close>, tries each start position from
  there to the end of the string in turn, and on success sets \<open>lastIndex\<close> to the
  end of the match; on failure it returns \<open>null\<close> and resets \<open>lastIndex\<close> to 0,
  so that the next comment is scanned from its beginning. The pattern looks neither
  behind nor ahead, so the string from \<open>lastIndex\<close> on determines the result:
  \<open>execAll\<close> takes that suffix and returns \<open>(match[1], match[2])\<close> of every
  iteration.\<close>

function execAll :: "string \<Rightarrow> (string \<times> string) list" where
  "execAll s =
     (case mtch matchPattern s of
        Some (caps, rest) \<Rightarrow> (caps ! 0, caps ! 1) # execAll rest
      | None \<Rightarrow> (case s of [] \<Rightarrow> [] | c # s' \<Rightarrow> execAll s'))"
  by pat_completeness auto
termination
  by (relation "measure length") (auto dest: mtch_matchPattern_shorter)

declare execAll.simps [simp del]

text \<open>\<open>String.prototype.trim\<close> removes white space at both ends.\<close>

definition trim :: "string \<Rightarrow> string" where
  "trim s = rev (dropWhile isSpace (rev (dropWhile isSpace s)))"

record comment =
  body :: string
  created_at :: string

record match =
  winner :: string
  loser :: string
  date :: string

text \<open>
  What the program reaches outside itself: the console, the files it writes, and the
  properties that the built-in objects reachable from \<open>Object.prototype\<close> have
  acquired (\<open>(k, f)\<close> stands for the property \<open>f\<close> of the object
  \<open>Object.prototype[k]\<close>).\<close>

datatype error = Error string

datatype entry = Log string | Err string error

record world =
  console :: "entry list"
  files :: "string \<Rightarrow> string option"
  globals :: "(string \<times> string) set"

definition console_log :: "string \<Rightarrow> world \<Rightarrow> world" where
  "console_log s w = w\<lparr>console := console w @ [Log s]\<rparr>"

definition console_error :: "string \<Rightarrow> error \<Rightarrow> world \<Rightarrow> world" where
  "console_error s e w = w\<lparr>console := console w @ [Err s e]\<rparr>"

text \<open>The body of \<open>comments.data.forEach\<close>: the records of one comment.\<close>

definition commentMatches :: "comment \<Rightarrow> match list" where
  "commentMatches c =
     map (\<lambda>(w, l). \<lparr>winner = trim w, loser = trim l, date = created_at c\<rparr>) (execAll (body c))"

text \<open>
  \<open>getMatchResults\<close>. The call \<open>octokit.rest.issues.listComments\<close> is an outside
  collaborator: its outcome, the comments or the error it rejects with, is the
  argument \<open>fetched\<close>.\<close>

definition getMatchResults :: "error + comment list \<Rightarrow> world \<Rightarrow> match list \<times> world" where
  "getMatchResults fetched w =
     (case fetched of
        Inr comments \<Rightarrow> (concat (map commentMatches comments), w)
      | Inl err \<Rightarrow> ([], console_error ''Error fetching comments:'' err w))"


section \<open>Ranking Aggregator: \<open>calculateRankings\<close>\<close>

text \<open>
  \<open>players\<close> is an object literal \<open>{}\<close> used as a dictionary. Its own properties
  are kept in creation order, each holding \<open>{win, lose}\<close>; the counters are
  JavaScript numbers, exact for integers below \<open>2^53\<close>, modelled as naturals.
  Its prototype is \<open>Object.prototype\<close>, so \<open>players[name]\<close> also finds the
  properties every object inherits: for these names the lookup returns a built-in
  function (for \<open>__proto__\<close>: \<open>Object.prototype\<close> itself), which is truthy.\<close>

type_synonym players = "(string \<times> nat \<times> nat) list"

definition inheritedNames :: "string list" where
  "inheritedNames =
     [''constructor'', ''__defineGetter__'', ''__defineSetter__'', ''hasOwnProperty'',
      ''__lookupGetter__'', ''__lookupSetter__'', ''isPrototypeOf'',
      ''propertyIsEnumerable'', ''toString'', ''valueOf'', ''__proto__'',
      ''toLocaleString'']"

definition own :: "players \<Rightarrow> string \<Rightarrow> bool" where
  "own ps name = (name \<in> set (map fst ps))"

text \<open>
  The truth value of \<open>players[name]\<close>: an own entry is an object; an inherited
  built-in is an object; a property \<open>win\<close> or \<open>lose\<close> that an earlier
  increment left on \<open>Object.prototype\<close> holds \<open>NaN\<close>, which is as falsy as
  \<open>undefined\<close>.\<close>

definition truthy :: "players \<Rightarrow> string \<Rightarrow> bool" where
  "truthy ps name = (own ps name \<or> name \<in> set inheritedNames)"

text \<open>\<^verbatim>\<open>if (!players[name]) { players[name] = { win: 0, lose: 0 }; }\<close>\<close>

definition ensure :: "string \<Rightarrow> players \<Rightarrow> players" where
  "ensure name ps = (if \<not> truthy ps name then ps @ [(name, 0, 0)] else ps)"

text \<open>
  \<^verbatim>\<open>players[name].win++\<close> and \<^verbatim>\<open>players[name].lose++\<close>, executed after both
  \<open>ensure\<close> steps, when \<open>players[name]\<close> is truthy (lemma \<open>truthy_ensure\<close>
  below): either an own entry, whose counter goes up by one, or an inherited
  built-in object, on which the increment of a missing (or \<open>NaN\<close>) property stores
  \<open>NaN\<close> and leaves \<open>players\<close> as it was.\<close>

definition incWin :: "string \<Rightarrow> players \<times> (string \<times> string) set \<Rightarrow> players \<times> (string \<times> string) set" where
  "incWin name = (\<lambda>(ps, g).
     if own ps name
     then (map (\<lambda>(k, w, l). if k = name then (k, w + 1, l) else (k, w, l)) ps, g)
     else (ps, insert (name, ''win'') g))"

definition incLose :: "string \<Rightarrow> players \<times> (string \<times> string) set \<Rightarrow> players \<times> (string \<times> string) set" where
  "incLose name = (\<lambda>(ps, g).
     if own ps name
     then (map (\<lambda>(k, w, l). if k = name then (k, w, l + 1) else (k, w, l)) ps, g)
     else (ps, insert (name, ''lose'') g))"

text \<open>The body of \<open>matches.forEach\<close>.\<close>

definition recordMatch :: "match \<Rightarrow> players \<times> (string \<times> string) set \<Rightarrow> players \<times> (string \<times> string) set" where
  "recordMatch m = (\<lambda>(ps, g).
     incLose (loser m) (incWin (winner m) (ensure (loser m) (ensure (winner m) ps), g)))"

text \<open>
  \<open>Object.entries\<close> lists the own properties: first the keys that are array
  indices (canonical decimal numerals up to \<open>2^32 - 2\<close>) in ascending numeric
  order, then the other keys in creation order.\<close>

definition isDigit :: "char \<Rightarrow> bool" where
  "isDigit c = (let n = (of_char c :: nat) in 48 \<le> n \<and> n \<le> 57)"

definition readNat :: "string \<Rightarrow> nat" where
  "readNat s = foldl (\<lambda>a c. 10 * a + (of_char c - 48)) 0 s"

definition arrayIndex :: "string \<Rightarrow> nat option" where
  "arrayIndex s =
     (if s \<noteq> [] \<and> list_all isDigit s \<and> (s = ''0'' \<or> hd s \<noteq> CHR ''0'')
         \<and> readNat s \<le> 4294967294
      then Some (readNat s) else None)"

definition entries :: "players \<Rightarrow> players" where
  "entries ps =
     sort_key (\<lambda>(k, v). case arrayIndex k of Some i \<Rightarrow> i | None \<Rightarrow> 0)
       (filter (\<lambda>(k, v). arrayIndex k \<noteq> None) ps)
     @ filter (\<lambda>(k, v). arrayIndex k = None) ps"

text \<open>
  Arithmetic on JavaScript numbers is IEEE 754 double precision: the result of a
  division or a multiplication is the exact result rounded to the nearest double, to
  the one with the even significand when two are equally near. A finite double is a
  rational number, and \<open>fl x\<close> is the double nearest to the rational \<open>x\<close>: with
  \<open>k = scale \<bar>x\<bar>\<close> the doubles near \<open>x\<close> are the multiples of \<open>2^-k\<close>, where
  \<open>2^52 \<le> \<bar>x\<bar> * 2^k < 2^53\<close> and \<open>k \<le> 1074\<close> (below \<open>2^-1022\<close> the doubles are
  evenly spaced). Magnitudes of \<open>2^1024\<close> and above, which round to \<open>Infinity\<close>,
  are outside the model; the program divides a counter by a larger one and multiplies
  the result by 100.\<close>

definition pow2 :: "int \<Rightarrow> rat" where
  "pow2 k = (if 0 \<le> k then 2 ^ nat k else 1 / 2 ^ nat (- k))"

function scaleUp :: "rat \<Rightarrow> int \<Rightarrow> int" where
  "scaleUp x k = (if k < 1074 \<and> x * pow2 k < 2 ^ 52 then scaleUp x (k + 1) else k)"
  by pat_completeness auto
termination
  by (relation "measure (\<lambda>(x, k). nat (1074 - k))") auto

function scaleDown :: "rat \<Rightarrow> int \<Rightarrow> int" where
  "scaleDown x k = (if - 971 < k \<and> 2 ^ 53 \<le> x * pow2 k then scaleDown x (k - 1) else k)"
  by pat_completeness auto
termination
  by (relation "measure (\<lambda>(x, k). nat (k + 971))") auto

declare scaleUp.simps [simp del] scaleDown.simps [simp del]

definition scale :: "rat \<Rightarrow> int" where
  "scale x = (if x < 2 ^ 52 then scaleUp x 0 else scaleDown x 0)"

definition roundHalfEven :: "rat \<Rightarrow> int" where
  "roundHalfEven y =
     (let f = \<lfloor>y\<rfloor>; r = y - of_int f
      in if r < 1 / 2 then f else if 1 / 2 < r then f + 1 else if even f then f else f + 1)"

definition fl :: "rat \<Rightarrow> rat" where
  "fl x =
     (if x = 0 then 0
      else (let k = scale \<bar>x\<bar>
            in sgn x * of_int (roundHalfEven (\<bar>x\<bar> * pow2 k)) / pow2 k))"

text \<open>
  One entry of the ranking. \<open>winRate\<close> is the double that the division
  \<open>win / (win + lose)\<close> yields, as the rational number it is. (For \<open>0 / 0\<close>
  JavaScript gives \<open>NaN\<close>, the model 0; lemma \<open>rankings_played\<close> shows that no
  entry has \<open>win + lose = 0\<close>.)\<close>

record ranking =
  player :: string
  win :: nat
  lose :: nat
  total :: nat
  winRate :: rat

definition toRanking :: "string \<times> nat \<times> nat \<Rightarrow> ranking" where
  "toRanking = (\<lambda>(name, w, l).
     \<lparr>player = name, win = w, lose = l, total = w + l, winRate = fl (of_nat w / of_nat (w + l))\<rparr>)"

text \<open>
  The comparator passed to \<open>sort\<close>. The program rounds the differences to
  doubles, which keeps their sign, and \<open>sort\<close> reads nothing but the sign.\<close>

definition compareRank :: "ranking \<Rightarrow> ranking \<Rightarrow> rat" where
  "compareRank a b =
     (if winRate b \<noteq> winRate a then winRate b - winRate a
      else of_nat (win b) - of_nat (win a))"

text \<open>
  \<open>Array.prototype.sort\<close> with a comparator is stable: \<open>a\<close> stays before \<open>b\<close>
  unless the comparator returns a positive number for \<open>(a, b)\<close>. The engine's
  algorithm is not part of the program; the model is the stable insertion sort.\<close>

fun insertBy :: "('a \<Rightarrow> 'a \<Rightarrow> rat) \<Rightarrow> 'a \<Rightarrow> 'a list \<Rightarrow> 'a list" where
  "insertBy cmp x [] = [x]"
| "insertBy cmp x (y # ys) = (if cmp x y \<le> 0 then x # y # ys else y # insertBy cmp x ys)"

definition sortBy :: "('a \<Rightarrow> 'a \<Rightarrow> rat) \<Rightarrow> 'a list \<Rightarrow> 'a list" where
  "sortBy cmp xs = foldr (insertBy cmp) xs []"

definition calculateRankings ::
  "match list \<Rightarrow> (string \<times> string) set \<Rightarrow> (ranking list \<times> match list) \<times> (string \<times> string) set" where
  "calculateRankings matches g =
     (let (ps, g') = fold recordMatch matches ([], g)
      in ((sortBy compareRank (map toRanking (entries ps)), matches), g'))"

section \<open>Report Renderer: \<open>generateReadme\<close>\<close>

text \<open>
  A non-negative integer in a template literal is printed in decimal (the counters
  stay far below \<open>10^21\<close>, where JavaScript switches to exponent notation).\<close>

definition digit :: "nat \<Rightarrow> char" where
  "digit d = char_of (48 + d)"

fun showNat :: "nat \<Rightarrow> string" where
  "showNat n = (if n < 10 then [digit n] else showNat (n div 10) @ [digit (n mod 10)])"

declare showNat.simps [simp del]

text \<open>
  \<open>x.toFixed(1)\<close>: with \<open>n\<close> the integer for which \<open>n / 10 - x\<close> is closest to
  zero (the larger one if there are two), the digits of \<open>n\<close> with a point before
  the last; a negative \<open>x\<close> is printed as \<open>-\<close> followed by \<open>(-x).toFixed(1)\<close>.
  This is what \<open>toFixed\<close> does for a double below \<open>10^21\<close> in magnitude (a
  larger one is printed in exponent notation, \<open>NaN\<close> and the infinities by name);
  the program calls it on the double \<open>winRate * 100\<close> of a win rate between 0 and
  1 (lemma \<open>rankings_entry\<close>).\<close>

definition toFixed1 :: "rat \<Rightarrow> string" where
  "toFixed1 x =
     (let n = nat \<lfloor>10 * \<bar>x\<bar> + 1 / 2\<rfloor>
      in (if x < 0 then ''-'' else []) @ showNat (n div 10) @ ''.'' @ showNat (n mod 10))"

text \<open>\<open>xs.slice(start)\<close>: a negative \<open>start\<close> counts from the end.\<close>

definition slice :: "int \<Rightarrow> 'a list \<Rightarrow> 'a list" where
  "slice start xs =
     (let len = int (length xs);
          k = (if start < 0 then max (len + start) 0 else min start len)
      in drop (nat k) xs)"

definition matchHistory :: "match list \<Rightarrow> match list" where
  "matchHistory matches = rev (slice (- 10) matches)"

text \<open>
  What the renderer takes from its surroundings: the locale's rendering of a date
  (\<open>new Date(d).toLocaleDateString()\<close>), the rendering of the current time
  (\<open>new Date().toLocaleString()\<close>), and, for \<open>main\<close>, the error with which
  \<open>fs.writeFileSync\<close> fails, if it does.\<close>

record env =
  localeDateString :: "string \<Rightarrow> string"
  nowLocaleString :: string
  writeError :: "error option"

definition rankingRow :: "ranking \<Rightarrow> nat \<Rightarrow> string" where
  "rankingRow p index =
     ''| '' @ showNat (index + 1) @ '' | '' @ player p @ '' | '' @ showNat (win p) @ '' | ''
       @ showNat (lose p) @ '' | '' @ showNat (total p) @ '' | ''
       @ toFixed1 (fl (winRate p * 100)) @ ''% |''"

definition rankingRows :: "ranking list \<Rightarrow> string list" where
  "rankingRows rankings = map2 rankingRow rankings [0 ..< length rankings]"

definition historyRow :: "env \<Rightarrow> match \<Rightarrow> string" where
  "historyRow e m =
     ''| '' @ localeDateString e (date m) @ '' | '' @ winner m @ '' vs '' @ loser m @ '' | ''
       @ winner m @ '' |''"

definition historyRows :: "env \<Rightarrow> match list \<Rightarrow> string list" where
  "historyRows e matches = map (historyRow e) (matchHistory matches)"

definition newline :: string where
  "newline = [CHR 0x0A]"

fun join :: "string \<Rightarrow> string list \<Rightarrow> string" where
  "join sep [] = []"
| "join sep [x] = x"
| "join sep (x # y # ys) = x @ sep @ join sep (y # ys)"

text \<open>The emoji U+1F3B1 of the title, in the four bytes the written file holds.\<close>

definition poolEmoji :: string where
  "poolEmoji = [CHR 0xF0, CHR 0x9F, CHR 0x8E, CHR 0xB1]"

definition rankingHeader :: "string list" where
  "rankingHeader =
     [''| Rank | Player | Wins | Losses | Total | Win Rate |'',
      ''|------|--------|------|--------|-------|----------|'']"

definition historyHeader :: "string list" where
  "historyHeader =
     [''| Date | Match | Winner |'',
      ''|------|------|--------|'']"

definition generateReadme :: "env \<Rightarrow> ranking list \<Rightarrow> match list \<Rightarrow> string" where
  "generateReadme e rankings matches =
     join newline
       ([''# irvine-pool-league '' @ poolEmoji, [], ''## Current Rankings'', []]
        @ rankingHeader
        @ [join newline (rankingRows rankings), [], ''## Recent Match Records'', []]
        @ historyHeader
        @ [join newline (historyRows e matches), [],
           ''## How to record match results'', [],
           ''1. Go to [Match Result Recording Issue](../../issues/1)'',
           ''2. Enter the match results in the comment, format: `PlayerA > PlayerB` or `PlayerA beat PlayerB`'',
           ''3. The system will automatically update the rankings'', [],
           ''### Example:'',
           ''- `Thomas > Raymond`'',
           ''- `Thomas beat Raymond`'',
           ''- `Jerry > Kyle`'', [],
           ''---'',
           ''*Rankings are updated automatically by GitHub Actions | Last updated: ''
             @ nowLocaleString e @ ''*'',
           []])"

section \<open>The automated path: \<open>main\<close>\<close>

definition writeFileSync :: "env \<Rightarrow> string \<Rightarrow> string \<Rightarrow> world \<Rightarrow> error + world" where
  "writeFileSync e name content w =
     (case writeError e of
        Some err \<Rightarrow> Inl err
      | None \<Rightarrow> Inr (w\<lparr>files := (files w)(name \<mapsto> content)\<rparr>))"

text \<open>
  \<open>main\<close> returns \<open>Inr\<close> with the world it leaves when its promise is fulfilled,
  and \<open>Inl\<close> with the error and the world it leaves when its promise is rejected.\<close>

definition main :: "env \<Rightarrow> error + comment list \<Rightarrow> world \<Rightarrow> error \<times> world + world" where
  "main e fetched w =
     (let w1 = console_log ''Start updating rankings...'' w;
          (matches, w2) = getMatchResults fetched w1;
          w3 = console_log (''Found '' @ showNat (length matches) @ '' match records'') w2
      in if length matches = 0
         then Inr (console_log ''No match records found, skipping update'' w3)
         else
           (let ((rankings, ms), g) = calculateRankings matches (globals w3);
                w4 = w3\<lparr>globals := g\<rparr>;
                readme = generateReadme e rankings matches
            in case writeFileSync e ''README.md'' readme w4 of
                 Inl err \<Rightarrow> Inl (err, w4)
               | Inr w5 \<Rightarrow> Inr (console_log ''README.md updated'' w5)))"

text \<open>
  \<^verbatim>\<open>main().catch(console.error)\<close>: a rejection is printed with \<open>console.error\<close>
  (called with the error alone), after what \<open>main\<close> has done up to there, and the
  run ends.\<close>

definition run :: "env \<Rightarrow> error + comment list \<Rightarrow> world \<Rightarrow> world" where
  "run e fetched w =
     (case main e fetched w of
        Inl (err, w') \<Rightarrow> console_error [] err w'
      | Inr w' \<Rightarrow> w')"

section \<open>The order of a ranking\<close>

text \<open>
  The order of a ranking: \<open>a\<close> may stand before \<open>b\<close> when its win rate is higher,
  or equal with at least as many wins.\<close>

definition precedes :: "ranking \<Rightarrow> ranking \<Rightarrow> bool" where
  "precedes a b = (winRate b < winRate a \<or> (winRate b = winRate a \<and> win b \<le> win a))"

section \<open>What a match list says about a player\<close>

text \<open>
  The number of matches a name has won and lost, whether it occurs in a match at all,
  and the entry \<open>players\<close> is expected to hold for it. \<open>writes\<close> are the
  properties that the increments store on inherited built-in objects.\<close>

definition wonBy :: "match list \<Rightarrow> string \<Rightarrow> nat" where
  "wonBy ms k = length (filter (\<lambda>m. winner m = k) ms)"

definition lostBy :: "match list \<Rightarrow> string \<Rightarrow> nat" where
  "lostBy ms k = length (filter (\<lambda>m. loser m = k) ms)"

definition played :: "match list \<Rightarrow> string \<Rightarrow> bool" where
  "played ms k = (k \<in> winner ` set ms \<union> loser ` set ms)"

definition tally :: "match list \<Rightarrow> string \<Rightarrow> (nat \<times> nat) option" where
  "tally ms k =
     (if played ms k \<and> k \<notin> set inheritedNames then Some (wonBy ms k, lostBy ms k) else None)"

definition writes :: "match list \<Rightarrow> (string \<times> string) set" where
  "writes ms =
     (\<lambda>m. (winner m, ''win'')) ` {m \<in> set ms. winner m \<in> set inheritedNames}
     \<union> (\<lambda>m. (loser m, ''lose'')) ` {m \<in> set ms. loser m \<in> set inheritedNames}"

section \<open>Reading the report\<close>

text \<open>
  The report as its reader sees it: the lines of the text (\<open>split('\n')\<close>), and the
  rows of the table under a given two-line header, which are the lines after the header
  as long as they begin with \<open>|\<close>. \<open>join\<close> of no rows is the empty string, which
  is one empty line of the report (\<open>orBlank\<close>). \<open>reportBottom\<close> names the lines of
  the template after the second table.\<close>

definition oneLine :: "string \<Rightarrow> bool" where
  "oneLine s = (CHR 0x0A \<notin> set s)"

fun lines :: "string \<Rightarrow> string list" where
  "lines [] = [[]]"
| "lines (c # cs) =
     (if c = CHR 0x0A then [] # lines cs
      else (case lines cs of [] \<Rightarrow> [[c]] | l # ls \<Rightarrow> (c # l) # ls))"

definition isRow :: "string \<Rightarrow> bool" where
  "isRow l = (case l of [] \<Rightarrow> False | c # cs \<Rightarrow> c = CHR ''|'')"

fun afterHeader :: "string list \<Rightarrow> string list \<Rightarrow> string list" where
  "afterHeader hdr [] = []"
| "afterHeader hdr (l # ls) =
     (if take (length hdr) (l # ls) = hdr then drop (length hdr) (l # ls)
      else afterHeader hdr ls)"

definition tableRows :: "string list \<Rightarrow> string list \<Rightarrow> string list" where
  "tableRows hdr ls = takeWhile isRow (afterHeader hdr ls)"

definition orBlank :: "string list \<Rightarrow> string list" where
  "orBlank rows = (if rows = [] then [[]] else rows)"

definition reportBottom :: "env \<Rightarrow> string list" where
  "reportBottom e =
     [''## How to record match results'', [],
      ''1. Go to [Match Result Recording Issue](../../issues/1)'',
      ''2. Enter the match results in the comment, format: `PlayerA > PlayerB` or `PlayerA beat PlayerB`'',
      ''3. The system will automatically update the rankings'', [],
      ''### Example:'',
      ''- `Thomas > Raymond`'',
      ''- `Thomas beat Raymond`'',
      ''- `Jerry > Kyle`'', [],
      ''---'',
      ''*Rankings are updated automatically by GitHub Actions | Last updated: ''
        @ nowLocaleString e @ ''*'',
      []]"

section \<open>Sample inputs\<close>

definition world0 :: world where
  "world0 = \<lparr>console = [], files = Map.empty, globals = {}\<rparr>"

definition env0 :: env where
  "env0 = \<lparr>localeDateString = take 10, nowLocaleString = ''1/1/2024, 12:00:00 AM'',
            writeError = None\<rparr>"

definition mk :: "string \<Rightarrow> string \<Rightarrow> match" where
  "mk w l = \<lparr>winner = w, loser = l, date = ''2024-01-01T00:00:00Z''\<rparr>"

definition sample11 :: "match list" where
  "sample11 = [mk ''P0'' ''Q'', mk ''P1'' ''Q'', mk ''P2'' ''Q'', mk ''P3'' ''Q'', mk ''P4'' ''Q'',
     mk ''P5'' ''Q'', mk ''P6'' ''Q'', mk ''P7'' ''Q'', mk ''P8'' ''Q'', mk ''P9'' ''Q'', mk ''P10'' ''Q'']"

definition sampleRanking :: "ranking list" where
  "sampleRanking =
     [\<lparr>player = ''Thomas'', win = 10, lose = 4, total = 14, winRate = fl (5 / 7)\<rparr>,
      \<lparr>player = ''Kyle'', win = 23, lose = 57, total = 80, winRate = fl (23 / 80)\<rparr>]"

definition sample3 :: "match list" where
  "sample3 = [mk ''Thomas'' ''Raymond'', mk ''Jerry'' ''Kyle'', mk ''Thomas'' ''Jerry'']"

definition sample3Ranking :: "ranking list" where
  "sample3Ranking =
     [\<lparr>player = ''Thomas'', win = 2, lose = 0, total = 2, winRate = 1\<rparr>,
      \<lparr>player = ''Jerry'', win = 1, lose = 1, total = 2, winRate = 1 / 2\<rparr>,
      \<lparr>player = ''Raymond'', win = 0, lose = 1, total = 1, winRate = 0\<rparr>,
      \<lparr>player = ''Kyle'', win = 0, lose = 1, total = 1, winRate = 0\<rparr>]"

definition sampleComments :: "comment list" where
  "sampleComments =
     [\<lparr>body = ''Jerry > Kyle'', created_at = ''2024-02-03T10:00:00Z''\<rparr>,
      \<lparr>body = ''Thomas beat Raymond'', created_at = ''2024-02-04T09:30:00Z''\<rparr>]"

section \<open>Rounding to a double\<close>

lemma pow2_pos: "0 < pow2 k"
  by (simp add: pow2_def)

lemma pow2_Suc: "pow2 (k + 1) = 2 * pow2 k"
proof (cases "0 \<le> k")
  case True
  then show ?thesis
    by (simp add: pow2_def nat_add_distrib)
next
  case False
  then have "nat (- k) = Suc (nat (- (k + 1)))"
    by simp
  with False show ?thesis
    by (simp add: pow2_def)
qed

lemma pow2_mono: "j \<le> k \<Longrightarrow> pow2 j \<le> pow2 k"
proof (induction "nat (k - j)" arbitrary: k)
  case 0
  then show ?case by simp
next
  case (Suc n)
  then have "n = nat ((k - 1) - j)" "j \<le> k - 1"
    by simp_all
  from Suc.hyps(1) [OF this] have "pow2 j \<le> pow2 (k - 1)" .
  also have "\<dots> \<le> pow2 k"
    using pow2_Suc [of "k - 1"] pow2_pos [of "k - 1"] by simp
  finally show ?case .
qed

lemma scaleUp_step: "k < 1074 \<Longrightarrow> x * pow2 k < 2 ^ 52 \<Longrightarrow> scaleUp x k = scaleUp x (k + 1)"
  by (subst scaleUp.simps) simp

lemma scaleUp_stop: "\<not> (k < 1074 \<and> x * pow2 k < 2 ^ 52) \<Longrightarrow> scaleUp x k = k"
  by (subst scaleUp.simps) auto

lemma scaleUp_bound:
  "x * pow2 k < 2 ^ 53 \<Longrightarrow> x * pow2 (scaleUp x k) < 2 ^ 53"
proof (induction x k rule: scaleUp.induct)
  case (1 x k)
  show ?case
  proof (cases "k < 1074 \<and> x * pow2 k < 2 ^ 52")
    case True
    then have "x * pow2 (k + 1) < 2 ^ 53"
      by (simp add: pow2_Suc)
    from "1.IH" [OF True this] True show ?thesis
      by (simp add: scaleUp_step)
  next
    case False
    with "1.prems" show ?thesis
      by (simp only: scaleUp_stop [OF False])
  qed
qed

lemma scaleUp_reaches:
  "k \<le> 1074 \<Longrightarrow> scaleUp x k = 1074 \<or> 2 ^ 52 \<le> x * pow2 (scaleUp x k)"
proof (induction x k rule: scaleUp.induct)
  case (1 x k)
  show ?case
  proof (cases "k < 1074 \<and> x * pow2 k < 2 ^ 52")
    case True
    then have "k + 1 \<le> 1074"
      by simp
    from "1.IH" [OF True this] True show ?thesis
      by (simp add: scaleUp_step)
  next
    case False
    with "1.prems" show ?thesis
      unfolding scaleUp_stop [OF False] by auto
  qed
qed

lemma roundHalfEven_nonneg: "0 \<le> y \<Longrightarrow> 0 \<le> roundHalfEven y"
  by (simp add: roundHalfEven_def Let_def)

lemma roundHalfEven_le: "y \<le> of_int n \<Longrightarrow> roundHalfEven y \<le> n"
proof -
  assume y: "y \<le> of_int n"
  then have f: "\<lfloor>y\<rfloor> \<le> n"
    by (simp add: floor_le_iff)
  show ?thesis
  proof (cases "y = of_int \<lfloor>y\<rfloor>")
    case True
    then have "roundHalfEven y = \<lfloor>y\<rfloor>"
      by (simp add: roundHalfEven_def Let_def)
    with f show ?thesis by simp
  next
    case False
    then have "of_int \<lfloor>y\<rfloor> < y"
      using of_int_floor_le [of y] by linarith
    with y have "(of_int \<lfloor>y\<rfloor> :: rat) < of_int n"
      by linarith
    then have "\<lfloor>y\<rfloor> < n"
      by (simp only: of_int_less_iff)
    moreover have "roundHalfEven y \<le> \<lfloor>y\<rfloor> + 1"
      by (simp add: roundHalfEven_def Let_def)
    ultimately show ?thesis by linarith
  qed
qed

lemma fl_0: "fl 0 = 0"
  by (simp add: fl_def)

lemma fl_nonneg: "0 \<le> x \<Longrightarrow> 0 \<le> fl x"
  by (simp add: fl_def Let_def roundHalfEven_nonneg pow2_pos less_imp_le)

lemma fl_le_1:
  assumes "0 \<le> x" and "x \<le> 1"
  shows "fl x \<le> 1"
proof (cases "x = 0")
  case True
  then show ?thesis by (simp add: fl_0)
next
  case False
  with assms have pos: "0 < x"
    by simp
  define k where "k = scaleUp x 0"
  have sc: "scale \<bar>x\<bar> = k"
    using pos assms(2) by (simp add: scale_def k_def)
  have "x * pow2 0 < 2 ^ 53"
    using assms(2) by (simp add: pow2_def)
  then have lt: "x * pow2 k < 2 ^ 53"
    unfolding k_def by (rule scaleUp_bound)
  have ge: "k = 1074 \<or> 2 ^ 52 \<le> x * pow2 k"
    unfolding k_def by (rule scaleUp_reaches) simp
  have k52: "52 \<le> k"
  proof (rule ccontr)
    assume "\<not> 52 \<le> k"
    then have k51: "k \<le> 51"
      by simp
    with ge have "2 ^ 52 \<le> x * pow2 k"
      by auto
    also have "\<dots> \<le> 1 * pow2 k"
      using assms(2) pow2_pos [of k] by (simp only: mult_le_cancel_right) simp
    also have "\<dots> \<le> pow2 51"
      using pow2_mono [OF k51] by simp
    finally show False
      by (simp add: pow2_def)
  qed
  have "x * pow2 k \<le> 1 * pow2 k"
    using assms(2) pow2_pos [of k] by (simp only: mult_le_cancel_right) simp
  moreover obtain n where n: "pow2 k = of_int n"
    using k52 by (auto simp add: pow2_def intro: that [of "2 ^ nat k"])
  ultimately have "roundHalfEven (x * pow2 k) \<le> n"
    by (intro roundHalfEven_le) simp
  then have "(of_int (roundHalfEven (x * pow2 k)) :: rat) \<le> pow2 k"
    unfolding n by (simp only: of_int_le_iff)
  then have "of_int (roundHalfEven (x * pow2 k)) / pow2 k \<le> 1"
    using pow2_pos [of k] by (simp add: divide_le_eq)
  with pos sc show ?thesis
    by (simp add: fl_def Let_def)
qed

lemma floor_rat_numeral: "\<lfloor>(numeral a :: rat) / numeral b\<rfloor> = numeral a div numeral b"
  by (metis floor_divide_of_int_eq of_int_numeral)

lemmas fl_eval = fl_def scale_def scaleUp.simps scaleDown.simps pow2_def roundHalfEven_def Let_def
  floor_rat_numeral

lemma fl_1: "fl 1 = 1"
  by (simp add: fl_eval)

lemma fl_half: "fl (1 / 2) = 1 / 2"
  by (simp add: fl_eval)

section \<open>Evaluation lemmas\<close>

lemma digit_simps:
  "digit 0 = CHR 0x30" "digit 1 = CHR 0x31" "digit 2 = CHR 0x32" "digit 3 = CHR 0x33"
  "digit 4 = CHR 0x34" "digit 5 = CHR 0x35" "digit 6 = CHR 0x36" "digit 7 = CHR 0x37"
  "digit 8 = CHR 0x38" "digit 9 = CHR 0x39"
  by (simp_all add: digit_def char_of_eq_iff)

lemma showNat_small: "n < 10 \<Longrightarrow> showNat n = [digit n]"
  by (simp add: showNat.simps)

lemmas regex_defs = execAll.simps matchPattern_def isWord_def isSpace_def isSep_def

lemmas aggregate_defs = calculateRankings_def recordMatch_def ensure_def truthy_def own_def
  inheritedNames_def incWin_def incLose_def entries_def arrayIndex_def isDigit_def
  toRanking_def sortBy_def readNat_def compareRank_def fl_0 fl_1 fl_half

section \<open>The automated path: failures and empty input\<close>

lemma main_fetch_error:
  "main e (Inl err) w = Inr (w\<lparr>console := console w @
       [Log ''Start updating rankings...'', Err ''Error fetching comments:'' err,
        Log ''Found 0 match records'', Log ''No match records found, skipping update'']\<rparr>)"
  by (simp add: main_def getMatchResults_def console_log_def console_error_def
      showNat_small digit_simps)

text \<open>
  Claim C6. When fetching the comments fails with an error, \<open>getMatchResults\<close> returns
  the empty list and prints the error with \<open>console.error\<close>; the error goes no
  further: \<open>main\<close> is fulfilled, the run ends in the world \<open>main\<close> returns, and no
  file has changed.\<close>

theorem fetch_error_caught:
  "getMatchResults (Inl err) w
     = ([], w\<lparr>console := console w @ [Err ''Error fetching comments:'' err]\<rparr>)
   \<and> (\<exists>w'. main e (Inl err) w = Inr w' \<and> files w' = files w \<and> run e (Inl err) w = w')"
  by (simp add: main_fetch_error run_def) (simp add: getMatchResults_def console_error_def)

theorem fetch_error_caught_witness:
  "fst (getMatchResults (Inl (Error ''timeout'')) world0) = []
   \<and> console (snd (getMatchResults (Inl (Error ''timeout'')) world0))
       = [Err ''Error fetching comments:'' (Error ''timeout'')]
   \<and> (\<exists>w'. main env0 (Inl (Error ''timeout'')) world0 = Inr w' \<and> files w' ''README.md'' = None)"
  using fetch_error_caught [of "Error ''timeout''" world0 env0]
  by (auto simp add: world0_def)

text \<open>
  Claim C5. When the list of extracted matches is empty, \<open>main\<close> is fulfilled (the run
  ends without an error), no file is written (every file is as it was before), and the
  last thing printed is the notice that the update is skipped.\<close>

theorem empty_extraction_skips_report:
  assumes "fst (getMatchResults fetched (console_log ''Start updating rankings...'' w)) = []"
  shows "\<exists>w'. main e fetched w = Inr w' \<and> files w' = files w \<and> globals w' = globals w
           \<and> run e fetched w = w'
           \<and> last (console w') = Log ''No match records found, skipping update''"
  using assms
  by (cases fetched)
    (simp_all add: main_def run_def getMatchResults_def console_log_def console_error_def Let_def
      split: prod.splits)

lemma execAll_good_luck: "execAll ''good luck'' = []"
  by (simp add: regex_defs)

theorem empty_extraction_skips_report_witness:
  "fst (getMatchResults (Inr [\<lparr>body = ''good luck'', created_at = ''2024-01-01T00:00:00Z''\<rparr>])
        (console_log ''Start updating rankings...'' world0)) = []
   \<and> (\<exists>w'. main env0 (Inr [\<lparr>body = ''good luck'', created_at = ''2024-01-01T00:00:00Z''\<rparr>]) world0
            = Inr w'
          \<and> files w' = files world0)"
proof -
  have h: "fst (getMatchResults (Inr [\<lparr>body = ''good luck'', created_at = ''2024-01-01T00:00:00Z''\<rparr>])
        (console_log ''Start updating rankings...'' world0)) = []"
    by (simp add: getMatchResults_def commentMatches_def execAll_good_luck)
  from empty_extraction_skips_report [OF h, of env0] h show ?thesis
    by blast
qed

section \<open>Report Renderer: the two tables\<close>

lemma slice_last10: "slice (- 10) xs = drop (length xs - 10) xs"
proof -
  have "nat (max (int (length xs) + - 10) 0) = length xs - 10"
    by simp
  then show ?thesis
    by (simp add: slice_def Let_def)
qed

lemma matchHistory_eq: "matchHistory ms = rev (drop (length ms - 10) ms)"
  by (simp add: matchHistory_def slice_last10)

lemma length_matchHistory: "length (matchHistory ms) = min 10 (length ms)"
  by (simp add: matchHistory_eq)

lemma matchHistory_nth:
  assumes "i < min 10 (length ms)"
  shows "matchHistory ms ! i = ms ! (length ms - 1 - i)"
proof -
  let ?k = "length ms - 10"
  from assms have i: "i < length (drop ?k ms)"
    by (simp only: length_drop)
  have "matchHistory ms ! i = drop ?k ms ! (length (drop ?k ms) - Suc i)"
    by (simp only: matchHistory_eq rev_nth [OF i])
  also have "\<dots> = ms ! (?k + (length (drop ?k ms) - Suc i))"
    using assms by (intro nth_drop) simp
  also have "?k + (length (drop ?k ms) - Suc i) = length ms - 1 - i"
    using assms by simp arith
  finally show ?thesis .
qed

lemma isDigit_digit: "d < 10 \<Longrightarrow> isDigit (digit d)"
  by (simp add: isDigit_def digit_def)

lemma of_char_digit: "d < 10 \<Longrightarrow> of_char (digit d) = 48 + d"
  by (simp add: digit_def)

lemma showNat_digits: "showNat n \<noteq> [] \<and> list_all isDigit (showNat n)"
proof (induction n rule: showNat.induct)
  case (1 n)
  show ?case
  proof (cases "n < 10")
    case True
    then show ?thesis by (simp add: showNat.simps [of n] isDigit_digit)
  next
    case False
    with 1 show ?thesis by (simp add: showNat.simps [of n] isDigit_digit)
  qed
qed

lemma readNat_snoc: "readNat (s @ [c]) = 10 * readNat s + (of_char c - 48)"
  by (simp add: readNat_def)

lemma readNat_showNat: "readNat (showNat n) = n"
proof (induction n rule: showNat.induct)
  case (1 n)
  show ?case
  proof (cases "n < 10")
    case True
    then show ?thesis by (simp add: showNat.simps [of n] readNat_def of_char_digit)
  next
    case False
    with 1 show ?thesis by (simp add: showNat.simps [of n] readNat_snoc of_char_digit)
  qed
qed

lemma toFixed1_shape:
  "\<exists>sgn ds d. toFixed1 x = sgn @ ds @ ''.'' @ [d] \<and> (sgn = [] \<or> sgn = ''-'')
      \<and> ds \<noteq> [] \<and> list_all isDigit ds \<and> isDigit d"
proof -
  define n where "n = nat \<lfloor>10 * \<bar>x\<bar> + 1 / 2\<rfloor>"
  have "toFixed1 x = (if x < 0 then ''-'' else []) @ showNat (n div 10) @ ''.'' @ [digit (n mod 10)]"
    by (simp add: toFixed1_def n_def Let_def showNat_small)
  moreover have "isDigit (digit (n mod 10))"
    by (simp add: isDigit_digit)
  ultimately show ?thesis
    using showNat_digits [of "n div 10"] by (intro exI [of _ "if x < 0 then ''-'' else []"] exI [of _ "showNat (n div 10)"] exI [of _ "digit (n mod 10)"]) simp
qed

lemma rankingRows_nth:
  "i < length rs \<Longrightarrow> rankingRows rs ! i = rankingRow (rs ! i) i"
  by (simp add: rankingRows_def)

lemma lines_not_Nil: "lines s \<noteq> []"
  by (induction s) (auto split: list.splits)

lemma lines_oneLine: "oneLine s \<Longrightarrow> lines s = [s]"
  by (induction s) (auto simp add: oneLine_def)

lemma lines_append:
  "oneLine x \<Longrightarrow> lines (x @ newline @ r) = x # lines r"
proof (induction x)
  case Nil
  then show ?case by (simp add: newline_def)
next
  case (Cons c x)
  then show ?case by (auto simp add: oneLine_def)
qed

lemma join_Cons: "ys \<noteq> [] \<Longrightarrow> join sep (x # ys) = x @ sep @ join sep ys"
  by (cases ys) simp_all

lemma join_append:
  "xs \<noteq> [] \<Longrightarrow> ys \<noteq> [] \<Longrightarrow> join sep (xs @ ys) = join sep xs @ sep @ join sep ys"
proof (induction xs)
  case Nil
  then show ?case by simp
next
  case (Cons x xs)
  show ?case
  proof (cases "xs = []")
    case True
    with Cons.prems show ?thesis by (simp add: join_Cons)
  next
    case False
    with Cons show ?thesis by (simp add: join_Cons)
  qed
qed

lemma join_orBlank: "join sep (orBlank rows) = join sep rows"
  by (simp add: orBlank_def)

lemma orBlank_not_Nil: "orBlank rows \<noteq> []"
  by (simp add: orBlank_def)

lemma join_nested:
  assumes "rest \<noteq> []"
  shows "join sep (join sep rows # rest) = join sep (orBlank rows @ rest)"
  using assms by (simp add: join_Cons join_append orBlank_not_Nil join_orBlank)

lemma lines_join_prefix:
  "list_all oneLine pre \<Longrightarrow> rest \<noteq> [] \<Longrightarrow>
     lines (join newline (pre @ rest)) = pre @ lines (join newline rest)"
proof (induction pre)
  case Nil
  then show ?case by simp
next
  case (Cons x pre)
  then have "lines (join newline ((x # pre) @ rest)) = lines (x @ newline @ join newline (pre @ rest))"
    by (simp add: join_Cons)
  also have "\<dots> = x # lines (join newline (pre @ rest))"
    using Cons.prems by (intro lines_append) simp
  finally show ?case
    using Cons by simp
qed

lemma afterHeader_skip:
  assumes "hdr \<noteq> []" and "\<forall>l\<in>set pre. l \<noteq> hd hdr"
  shows "afterHeader hdr (pre @ hdr @ rest) = rest"
  using assms(2)
proof (induction pre)
  case Nil
  from assms(1) obtain h hs where "hdr = h # hs"
    by (cases hdr) auto
  then show ?case by simp
next
  case (Cons l pre)
  from assms(1) obtain h hs where h: "hdr = h # hs"
    by (cases hdr) auto
  with Cons.prems have "l \<noteq> h"
    by simp
  then have "take (length hdr) ((l # pre) @ hdr @ rest) \<noteq> hdr"
    by (simp add: h)
  with Cons show ?case
    by simp
qed

lemma takeWhile_rows:
  assumes "list_all isRow rows"
  shows "takeWhile isRow (orBlank rows @ [] # rest) = rows"
proof (cases "rows = []")
  case True
  then show ?thesis by (simp add: orBlank_def isRow_def)
next
  case False
  with assms show ?thesis
    by (simp add: orBlank_def list_all_iff takeWhile_append2 isRow_def)
qed


lemma join_nested_prefix:
  assumes "rest \<noteq> []"
  shows "join sep (pre @ join sep rows # rest) = join sep (pre @ orBlank rows @ rest)"
proof (cases "pre = []")
  case True
  with assms show ?thesis by (simp add: join_nested)
next
  case False
  with assms show ?thesis
    by (simp add: join_append orBlank_not_Nil join_nested)
qed

lemma generateReadme_flat:
  "generateReadme e rs ms =
     join newline
       ([''# irvine-pool-league '' @ poolEmoji, [], ''## Current Rankings'', []]
        @ rankingHeader @ orBlank (rankingRows rs)
        @ [[], ''## Recent Match Records'', []]
        @ historyHeader @ orBlank (historyRows e ms)
        @ [] # reportBottom e)"
proof -
  let ?T = "[''# irvine-pool-league '' @ poolEmoji, [], ''## Current Rankings'', []] @ rankingHeader"
  let ?M = "[[], ''## Recent Match Records'', []] @ historyHeader"
  let ?B = "[] # reportBottom e"
  have "generateReadme e rs ms
      = join newline (?T @ join newline (rankingRows rs) # (?M @ join newline (historyRows e ms) # ?B))"
    by (simp add: generateReadme_def reportBottom_def)
  also have "\<dots> = join newline (?T @ orBlank (rankingRows rs) @ (?M @ join newline (historyRows e ms) # ?B))"
    by (rule join_nested_prefix) simp
  also have "\<dots> = join newline ((?T @ orBlank (rankingRows rs) @ ?M) @ join newline (historyRows e ms) # ?B)"
    by simp
  also have "\<dots> = join newline ((?T @ orBlank (rankingRows rs) @ ?M) @ orBlank (historyRows e ms) @ ?B)"
    by (rule join_nested_prefix) simp
  finally show ?thesis
    by simp
qed

lemma oneLine_append [simp]: "oneLine (a @ b) \<longleftrightarrow> oneLine a \<and> oneLine b"
  by (auto simp add: oneLine_def)

lemma oneLine_Nil [simp]: "oneLine []"
  by (simp add: oneLine_def)

lemma oneLine_Cons [simp]: "oneLine (c # s) \<longleftrightarrow> c \<noteq> CHR 0x0A \<and> oneLine s"
  by (auto simp add: oneLine_def)

lemma oneLine_digits: "list_all isDigit s \<Longrightarrow> oneLine s"
  by (auto simp add: oneLine_def list_all_iff isDigit_def)

lemma oneLine_showNat: "oneLine (showNat n)"
  using showNat_digits [of n] by (simp add: oneLine_digits)

lemma oneLine_toFixed1: "oneLine (toFixed1 x)"
proof -
  obtain sgn ds d where "toFixed1 x = sgn @ ds @ ''.'' @ [d]" "sgn = [] \<or> sgn = ''-''"
    "list_all isDigit ds" "isDigit d"
    using toFixed1_shape [of x] by blast
  then show ?thesis
    by (auto simp add: oneLine_digits isDigit_def)
qed

lemma oneLine_rankingRow: "oneLine (player p) \<Longrightarrow> oneLine (rankingRow p i)"
  by (simp add: rankingRow_def oneLine_showNat oneLine_toFixed1)

lemma oneLine_historyRow:
  "oneLine (winner m) \<Longrightarrow> oneLine (loser m) \<Longrightarrow> oneLine (localeDateString e (date m))
     \<Longrightarrow> oneLine (historyRow e m)"
  by (simp add: historyRow_def)

lemma isRow_rankingRow: "isRow (rankingRow p i)"
  by (simp add: rankingRow_def isRow_def)

lemma isRow_historyRow: "isRow (historyRow e m)"
  by (simp add: historyRow_def isRow_def)

lemma rankingRow_not_historyHeader: "rankingRow p i \<noteq> ''| Date | Match | Winner |''"
proof
  assume eq: "rankingRow p i = ''| Date | Match | Winner |''"
  obtain d ds where d: "showNat (i + 1) = d # ds" "isDigit d"
    using showNat_digits [of "i + 1"] by (cases "showNat (i + 1)") auto
  from eq have "d = CHR ''D''"
    by (simp add: rankingRow_def d(1))
  with d(2) show False
    by (simp add: isDigit_def)
qed

lemma in_rankingRows:
  "r \<in> set (rankingRows rs) \<Longrightarrow> \<exists>p\<in>set rs. \<exists>i. r = rankingRow p i"
  by (auto simp add: rankingRows_def dest!: set_zip_leftD)


lemma oneLine_rankingRows:
  assumes "\<forall>p\<in>set rs. oneLine (player p)"
  shows "list_all oneLine (orBlank (rankingRows rs))"
  using assms by (auto simp add: orBlank_def list_all_iff dest!: in_rankingRows intro: oneLine_rankingRow)

lemma oneLine_historyRows:
  assumes "\<forall>m\<in>set ms. oneLine (winner m) \<and> oneLine (loser m) \<and> oneLine (localeDateString e (date m))"
  shows "list_all oneLine (orBlank (historyRows e ms))"
proof -
  have "set (matchHistory ms) \<subseteq> set ms"
    by (auto simp add: matchHistory_eq dest: in_set_dropD)
  with assms show ?thesis
    by (auto simp add: orBlank_def list_all_iff historyRows_def intro!: oneLine_historyRow)
qed

lemma isRow_rankingRows: "list_all isRow (rankingRows rs)"
  by (auto simp add: list_all_iff dest!: in_rankingRows intro: isRow_rankingRow)

lemma isRow_historyRows: "list_all isRow (historyRows e ms)"
  by (simp add: list_all_iff historyRows_def isRow_historyRow)

lemma reportBottom_not_Nil: "reportBottom e \<noteq> []"
  by (simp add: reportBottom_def)

lemma ranking_table_in_report:
  assumes "\<forall>p\<in>set rs. oneLine (player p)"
  shows "\<exists>rest. lines (generateReadme e rs ms) =
      [''# irvine-pool-league '' @ poolEmoji, [], ''## Current Rankings'', [],
       ''| Rank | Player | Wins | Losses | Total | Win Rate |'',
       ''|------|--------|------|--------|-------|----------|'']
      @ orBlank (rankingRows rs) @ [] # rest"
proof -
  define pre where "pre = [''# irvine-pool-league '' @ poolEmoji, [], ''## Current Rankings'', []]
      @ rankingHeader @ orBlank (rankingRows rs) @ [[]]"
  define rest where "rest = [''## Recent Match Records'', []] @ historyHeader
      @ orBlank (historyRows e ms) @ [] # reportBottom e"
  have g: "generateReadme e rs ms = join newline (pre @ rest)"
    by (simp add: generateReadme_flat pre_def rest_def)
  have o: "list_all oneLine pre"
    using oneLine_rankingRows [OF assms] by (simp add: pre_def rankingHeader_def poolEmoji_def)
  have r: "rest \<noteq> []"
    by (simp add: rest_def)
  have "lines (generateReadme e rs ms) = pre @ lines (join newline rest)"
    unfolding g by (rule lines_join_prefix [OF o r])
  then show ?thesis
    by (simp add: pre_def rankingHeader_def)
qed

lemma history_table_in_report:
  assumes "\<forall>p\<in>set rs. oneLine (player p)"
    and "\<forall>m\<in>set ms. oneLine (winner m) \<and> oneLine (loser m) \<and> oneLine (localeDateString e (date m))"
  shows "\<exists>rest. lines (generateReadme e rs ms) =
      ([''# irvine-pool-league '' @ poolEmoji, [], ''## Current Rankings'', []]
       @ rankingHeader @ orBlank (rankingRows rs) @ [[], ''## Recent Match Records'', []])
      @ [''| Date | Match | Winner |'', ''|------|------|--------|'']
      @ orBlank (historyRows e ms) @ [] # rest"
proof -
  define pre where "pre = [''# irvine-pool-league '' @ poolEmoji, [], ''## Current Rankings'', []]
      @ rankingHeader @ orBlank (rankingRows rs) @ [[], ''## Recent Match Records'', []]
      @ historyHeader @ orBlank (historyRows e ms) @ [[]]"
  have g: "generateReadme e rs ms = join newline (pre @ reportBottom e)"
    by (simp add: generateReadme_flat pre_def)
  have o: "list_all oneLine pre"
    using oneLine_rankingRows [OF assms(1)] oneLine_historyRows [OF assms(2)]
    by (simp add: pre_def rankingHeader_def historyHeader_def poolEmoji_def)
  have "lines (generateReadme e rs ms) = pre @ lines (join newline (reportBottom e))"
    unfolding g by (rule lines_join_prefix [OF o reportBottom_not_Nil])
  then show ?thesis
    by (simp add: pre_def historyHeader_def)
qed

lemma tableRows_ranking:
  assumes "\<forall>p\<in>set rs. oneLine (player p)"
  shows "tableRows rankingHeader (lines (generateReadme e rs ms)) = rankingRows rs"
proof -
  define pre where "pre = [''# irvine-pool-league '' @ poolEmoji, [], ''## Current Rankings'', []]"
  from ranking_table_in_report [OF assms] obtain rest where
    eq: "lines (generateReadme e rs ms) = pre @ rankingHeader @ (orBlank (rankingRows rs) @ [] # rest)"
    by (auto simp add: rankingHeader_def pre_def)
  have h: "rankingHeader \<noteq> []" "\<forall>l\<in>set pre. l \<noteq> hd rankingHeader"
    by (simp_all add: rankingHeader_def pre_def)
  have "afterHeader rankingHeader (lines (generateReadme e rs ms))
      = orBlank (rankingRows rs) @ [] # rest"
    unfolding eq by (rule afterHeader_skip [OF h])
  then show ?thesis
    by (simp add: tableRows_def takeWhile_rows isRow_rankingRows)
qed

lemma tableRows_history:
  assumes "\<forall>p\<in>set rs. oneLine (player p)"
    and "\<forall>m\<in>set ms. oneLine (winner m) \<and> oneLine (loser m) \<and> oneLine (localeDateString e (date m))"
  shows "tableRows historyHeader (lines (generateReadme e rs ms)) = historyRows e ms"
proof -
  define pre where "pre = [''# irvine-pool-league '' @ poolEmoji, [], ''## Current Rankings'', []]
       @ rankingHeader @ orBlank (rankingRows rs) @ [[], ''## Recent Match Records'', []]"
  from history_table_in_report [OF assms] obtain rest where
    eq: "lines (generateReadme e rs ms) = pre @ historyHeader @ (orBlank (historyRows e ms) @ [] # rest)"
    by (auto simp add: historyHeader_def pre_def)
  have "\<forall>l\<in>set (orBlank (rankingRows rs)). l \<noteq> ''| Date | Match | Winner |''"
    by (auto simp add: orBlank_def rankingRow_not_historyHeader dest!: in_rankingRows)
  then have h2: "\<forall>l\<in>set pre. l \<noteq> hd historyHeader"
    by (simp add: pre_def historyHeader_def rankingHeader_def ball_Un)
  have h1: "historyHeader \<noteq> []"
    by (simp add: historyHeader_def)
  have "afterHeader historyHeader (lines (generateReadme e rs ms))
      = orBlank (historyRows e ms) @ [] # rest"
    unfolding eq by (rule afterHeader_skip [OF h1 h2])
  then show ?thesis
    by (simp add: tableRows_def takeWhile_rows isRow_historyRows)
qed


lemma toFixed1_nonneg:
  assumes "0 \<le> x"
  shows "\<exists>ds d. toFixed1 x = ds @ ''.'' @ [d] \<and> ds \<noteq> [] \<and> list_all isDigit ds \<and> isDigit d
      \<and> \<bar>of_nat (readNat (ds @ [d])) / 10 - x\<bar> \<le> 1 / 20"
proof -
  define n where "n = nat \<lfloor>10 * x + 1 / 2\<rfloor>"
  have shape: "toFixed1 x = showNat (n div 10) @ ''.'' @ [digit (n mod 10)]"
    using assms by (simp add: toFixed1_def n_def Let_def showNat_small)
  have "readNat (showNat (n div 10) @ [digit (n mod 10)]) = n"
    by (simp add: readNat_snoc readNat_showNat of_char_digit)
  moreover have "0 \<le> \<lfloor>10 * x + 1 / 2\<rfloor>"
    using assms by simp
  then have "(of_nat n :: rat) = of_int \<lfloor>10 * x + 1 / 2\<rfloor>"
    by (simp add: n_def)
  then have "(of_nat n :: rat) \<le> 10 * x + 1 / 2" "10 * x + 1 / 2 < of_nat n + 1"
    using floor_correct [of "10 * x + 1 / 2"] by simp_all
  then have "\<bar>of_nat n / 10 - x\<bar> \<le> 1 / 20"
    by linarith
  ultimately show ?thesis
    using showNat_digits [of "n div 10"] shape
    by (intro exI [of _ "showNat (n div 10)"] exI [of _ "digit (n mod 10)"]) (simp add: isDigit_digit)
qed

text \<open>
  Claim C4. Read line by line, the report holds under the header of the recent-matches
  table the rows of the last \<open>min 10 (length ms)\<close> matches of the input and no other:
  at most 10 rows, in reverse input order, row \<open>i\<close> being the row of the match at
  position \<open>length ms - 1 - i\<close>. (For names and rendered dates without a line
  break.)\<close>

theorem recent_matches_last_ten:
  assumes "\<forall>p\<in>set rs. oneLine (player p)"
    and "\<forall>m\<in>set ms. oneLine (winner m) \<and> oneLine (loser m) \<and> oneLine (localeDateString e (date m))"
  shows "tableRows historyHeader (lines (generateReadme e rs ms))
      = map (historyRow e) (rev (drop (length ms - min 10 (length ms)) ms))
    \<and> length (tableRows historyHeader (lines (generateReadme e rs ms))) = min 10 (length ms)
    \<and> length (tableRows historyHeader (lines (generateReadme e rs ms))) \<le> 10
    \<and> (\<forall>i < min 10 (length ms).
          tableRows historyHeader (lines (generateReadme e rs ms)) ! i
            = historyRow e (ms ! (length ms - 1 - i)))"
proof -
  have t: "tableRows historyHeader (lines (generateReadme e rs ms)) = historyRows e ms"
    using assms by (rule tableRows_history)
  have "length ms - min 10 (length ms) = length ms - 10"
    by simp
  then have "historyRows e ms = map (historyRow e) (rev (drop (length ms - min 10 (length ms)) ms))"
    by (simp only: historyRows_def matchHistory_eq)
  moreover have "\<forall>i < min 10 (length ms). historyRows e ms ! i = historyRow e (ms ! (length ms - 1 - i))"
    by (simp add: historyRows_def length_matchHistory matchHistory_nth del: min_less_iff_conj)
  moreover have "length (historyRows e ms) = min 10 (length ms)"
    by (simp add: historyRows_def length_matchHistory)
  ultimately show ?thesis
    unfolding t by simp
qed

text \<open>
  Claim C8. Read line by line, the report holds the header line with the columns Rank,
  Player, Wins, Losses, Total, Win Rate, and under the header one row per entry of the
  ranking and no other, in the ranking's order. Row \<open>i\<close> (counted from 0) holds, in
  this order: the position \<open>i + 1\<close> in decimal, the player's name, wins, losses,
  total, and the double \<open>winRate * 100\<close> printed by \<open>toFixed(1)\<close> and followed by
  \<open>%\<close>: at least one digit, a point and exactly one digit, which give the tenth
  nearest to that double. (For a ranking whose names have no line break and whose win
  rates lie between 0 and 1, as those of \<open>calculateRankings\<close> do by lemma
  \<open>rankings_entry\<close>.)\<close>

theorem ranking_table_rows:
  assumes "\<forall>p\<in>set rs. oneLine (player p) \<and> 0 \<le> winRate p \<and> winRate p \<le> 1"
  shows "lines (generateReadme e rs ms) ! 4 = ''| Rank | Player | Wins | Losses | Total | Win Rate |''
    \<and> length (tableRows rankingHeader (lines (generateReadme e rs ms))) = length rs
    \<and> (\<forall>i < length rs.
          tableRows rankingHeader (lines (generateReadme e rs ms)) ! i =
            ''| '' @ showNat (i + 1) @ '' | '' @ player (rs ! i)
            @ '' | '' @ showNat (win (rs ! i)) @ '' | '' @ showNat (lose (rs ! i))
            @ '' | '' @ showNat (total (rs ! i))
            @ '' | '' @ toFixed1 (fl (winRate (rs ! i) * 100)) @ ''% |''
          \<and> readNat (showNat (i + 1)) = i + 1
          \<and> (\<exists>ds d. toFixed1 (fl (winRate (rs ! i) * 100)) = ds @ ''.'' @ [d]
                \<and> ds \<noteq> [] \<and> list_all isDigit ds \<and> isDigit d
                \<and> \<bar>of_nat (readNat (ds @ [d])) / 10 - fl (winRate (rs ! i) * 100)\<bar> \<le> 1 / 20))"
proof -
  from assms have one: "\<forall>p\<in>set rs. oneLine (player p)"
    by simp
  have t: "tableRows rankingHeader (lines (generateReadme e rs ms)) = rankingRows rs"
    using one by (rule tableRows_ranking)
  from ranking_table_in_report [OF one, of e ms] obtain rest where
    "lines (generateReadme e rs ms) =
      [''# irvine-pool-league '' @ poolEmoji, [], ''## Current Rankings'', [],
       ''| Rank | Player | Wins | Losses | Total | Win Rate |'',
       ''|------|--------|------|--------|-------|----------|'']
      @ orBlank (rankingRows rs) @ [] # rest"
    by blast
  then have hdr:
    "lines (generateReadme e rs ms) ! 4 = ''| Rank | Player | Wins | Losses | Total | Win Rate |''"
    by simp
  have len: "length (rankingRows rs) = length rs"
    by (simp add: rankingRows_def)
  have row: "rankingRows rs ! i =
            ''| '' @ showNat (i + 1) @ '' | '' @ player (rs ! i)
            @ '' | '' @ showNat (win (rs ! i)) @ '' | '' @ showNat (lose (rs ! i))
            @ '' | '' @ showNat (total (rs ! i))
            @ '' | '' @ toFixed1 (fl (winRate (rs ! i) * 100)) @ ''% |''
          \<and> readNat (showNat (i + 1)) = i + 1
          \<and> (\<exists>ds d. toFixed1 (fl (winRate (rs ! i) * 100)) = ds @ ''.'' @ [d]
                \<and> ds \<noteq> [] \<and> list_all isDigit ds \<and> isDigit d
                \<and> \<bar>of_nat (readNat (ds @ [d])) / 10 - fl (winRate (rs ! i) * 100)\<bar> \<le> 1 / 20)"
    if i: "i < length rs" for i
  proof -
    from i assms have "0 \<le> winRate (rs ! i)"
      by simp
    then have "0 \<le> fl (winRate (rs ! i) * 100)"
      by (intro fl_nonneg) simp
    from toFixed1_nonneg [OF this] i show ?thesis
      by (simp add: rankingRows_nth rankingRow_def readNat_showNat)
  qed
  from hdr len row show ?thesis
    unfolding t by blast
qed


lemma sampleRanking_ok: "\<forall>p\<in>set sampleRanking. oneLine (player p) \<and> 0 \<le> winRate p \<and> winRate p \<le> 1"
  by (simp add: sampleRanking_def fl_nonneg fl_le_1)

lemma sample11_ok:
  "\<forall>m\<in>set sample11. oneLine (winner m) \<and> oneLine (loser m) \<and> oneLine (localeDateString env0 (date m))"
  by (simp add: sample11_def mk_def env0_def)

theorem recent_matches_last_ten_witness:
  "length sample11 = 11
   \<and> length (tableRows historyHeader (lines (generateReadme env0 sampleRanking sample11))) = 10
   \<and> tableRows historyHeader (lines (generateReadme env0 sampleRanking sample11)) ! 0
       = ''| 2024-01-01 | P10 vs Q | P10 |''
   \<and> tableRows historyHeader (lines (generateReadme env0 sampleRanking sample11)) ! 9
       = ''| 2024-01-01 | P1 vs Q | P1 |''"
proof -
  have len: "length sample11 = 11"
    by (simp add: sample11_def)
  have one: "\<forall>p\<in>set sampleRanking. oneLine (player p)"
    using sampleRanking_ok by simp
  note t = recent_matches_last_ten [OF one sample11_ok]
  from t have a: "length (tableRows historyHeader (lines (generateReadme env0 sampleRanking sample11))) = 10"
    by (simp add: len)
  from t have q: "\<And>i. i < min 10 (length sample11) \<Longrightarrow>
      tableRows historyHeader (lines (generateReadme env0 sampleRanking sample11)) ! i
        = historyRow env0 (sample11 ! (length sample11 - 1 - i))"
    by blast
  have "tableRows historyHeader (lines (generateReadme env0 sampleRanking sample11)) ! 0
        = historyRow env0 (sample11 ! 10)"
    and "tableRows historyHeader (lines (generateReadme env0 sampleRanking sample11)) ! 9
        = historyRow env0 (sample11 ! 1)"
    using q [of 0] q [of 9] by (simp_all add: len)
  with a len show ?thesis
    by (simp add: sample11_def historyRow_def env0_def mk_def)
qed

lemma toFixed1_sample: "toFixed1 (fl (fl (23 / 80) * 100)) = ''28.7''"
  by (simp add: fl_eval toFixed1_def showNat.simps digit_def char_of_eq_iff)

theorem ranking_table_rows_witness:
  "oneLine ''Thomas'' \<and> oneLine ''Kyle'' \<and> 0 \<le> fl (23 / 80) \<and> fl (23 / 80) \<le> 1
   \<and> length (tableRows rankingHeader (lines (generateReadme env0 sampleRanking sample11))) = 2
   \<and> tableRows rankingHeader (lines (generateReadme env0 sampleRanking sample11)) ! 1
       = ''| 2 | Kyle | 23 | 57 | 80 | 28.7% |''"
proof -
  note t = ranking_table_rows [OF sampleRanking_ok, of env0 sample11]
  from t have "length (tableRows rankingHeader (lines (generateReadme env0 sampleRanking sample11))) = 2"
    by (simp add: sampleRanking_def)
  moreover from t have "\<And>i. i < length sampleRanking \<Longrightarrow>
      tableRows rankingHeader (lines (generateReadme env0 sampleRanking sample11)) ! i =
        ''| '' @ showNat (i + 1) @ '' | '' @ player (sampleRanking ! i)
        @ '' | '' @ showNat (win (sampleRanking ! i)) @ '' | '' @ showNat (lose (sampleRanking ! i))
        @ '' | '' @ showNat (total (sampleRanking ! i))
        @ '' | '' @ toFixed1 (fl (winRate (sampleRanking ! i) * 100)) @ ''% |''"
    by blast
  from this [of 1] have "tableRows rankingHeader (lines (generateReadme env0 sampleRanking sample11)) ! 1
       = ''| 2 | Kyle | 23 | 57 | 80 | 28.7% |''"
    by (simp add: sampleRanking_def toFixed1_sample showNat.simps digit_def char_of_eq_iff)
  moreover have "0 \<le> fl (23 / 80)" "fl (23 / 80) \<le> 1"
    by (simp_all add: fl_nonneg fl_le_1)
  ultimately show ?thesis
    by simp
qed

section \<open>Ranking Aggregator: the order of the result\<close>

lemma compareRank_le_0: "compareRank a b \<le> 0 \<longleftrightarrow> precedes a b"
  by (auto simp add: compareRank_def precedes_def)

lemma precedes_total: "\<not> precedes a b \<Longrightarrow> precedes b a"
  by (auto simp add: precedes_def)

lemma precedes_trans: "precedes a b \<Longrightarrow> precedes b c \<Longrightarrow> precedes a c"
  by (auto simp add: precedes_def)

lemma set_insertBy: "set (insertBy cmp x ys) = insert x (set ys)"
  by (induction ys) auto

lemma mset_insertBy: "mset (insertBy cmp x ys) = add_mset x (mset ys)"
  by (induction ys) auto

lemma mset_sortBy: "mset (sortBy cmp xs) = mset xs"
  by (induction xs) (simp_all add: sortBy_def mset_insertBy)

lemma set_sortBy: "set (sortBy cmp xs) = set xs"
  using mset_sortBy [of cmp xs] by (metis set_mset_mset)

lemma sorted_insertBy:
  "sorted_wrt precedes ys \<Longrightarrow> sorted_wrt precedes (insertBy compareRank x ys)"
proof (induction ys)
  case Nil
  then show ?case by simp
next
  case (Cons y ys)
  show ?case
  proof (cases "compareRank x y \<le> 0")
    case True
    then have "precedes x y"
      by (simp add: compareRank_le_0)
    with Cons.prems have "\<forall>z\<in>set (y # ys). precedes x z"
      by (auto intro: precedes_trans)
    with True Cons.prems show ?thesis
      by simp
  next
    case False
    then have "precedes y x"
      by (simp add: compareRank_le_0 precedes_total)
    with False Cons show ?thesis
      by (auto simp add: set_insertBy)
  qed
qed

lemma sorted_sortBy: "sorted_wrt precedes (sortBy compareRank xs)"
proof (induction xs)
  case Nil
  then show ?case by (simp add: sortBy_def)
next
  case (Cons x xs)
  then show ?case
    using sorted_insertBy [of "sortBy compareRank xs" x] by (simp add: sortBy_def)
qed

lemma rankings_eq:
  "fst (fst (calculateRankings ms g))
     = sortBy compareRank (map toRanking (entries (fst (fold recordMatch ms ([], g)))))"
  by (simp add: calculateRankings_def split: prod.splits)

text \<open>
  Claim C2. In the ranking that \<open>calculateRankings\<close> returns, every entry and its
  successor are in order: the successor's win rate is lower, or it is the same and the
  successor's number of wins is not higher.\<close>

theorem ranking_sorted:
  assumes "calculateRankings ms g = ((rs, ms'), g')" and "Suc i < length rs"
  shows "winRate (rs ! Suc i) < winRate (rs ! i)
     \<or> (winRate (rs ! Suc i) = winRate (rs ! i) \<and> win (rs ! Suc i) \<le> win (rs ! i))"
proof -
  from assms(1) have "rs = fst (fst (calculateRankings ms g))"
    by simp
  then have "sorted_wrt precedes rs"
    by (simp only: rankings_eq sorted_sortBy)
  with assms(2) have "precedes (rs ! i) (rs ! Suc i)"
    by (simp add: sorted_wrt_iff_nth_less)
  then show ?thesis
    by (simp add: precedes_def)
qed

lemma calculateRankings_sample3:
  "calculateRankings sample3 {} = ((sample3Ranking, sample3), {})"
  by (simp add: sample3_def sample3Ranking_def mk_def aggregate_defs)

theorem ranking_sorted_witness:
  "calculateRankings sample3 {} = ((sample3Ranking, sample3), {})
   \<and> Suc 0 < length sample3Ranking
   \<and> (winRate (sample3Ranking ! Suc 0) < winRate (sample3Ranking ! 0)
       \<or> (winRate (sample3Ranking ! Suc 0) = winRate (sample3Ranking ! 0)
          \<and> win (sample3Ranking ! Suc 0) \<le> win (sample3Ranking ! 0)))"
proof -
  have h: "Suc 0 < length sample3Ranking"
    by (simp add: sample3Ranking_def)
  from ranking_sorted [OF calculateRankings_sample3 h] calculateRankings_sample3 h
  show ?thesis
    by blast
qed

section \<open>Match Extractor: the records\<close>

lemma take_takeWhile_all:
  assumes "n \<le> length (takeWhile P s)"
  shows "list_all P (take n s)"
proof -
  have "take n s = take n (takeWhile P s @ dropWhile P s)"
    by simp
  also have "\<dots> = take n (takeWhile P s)"
    using assms by (simp only: take_append) simp
  finally have "set (take n s) \<subseteq> set (takeWhile P s)"
    by (simp add: set_take_subset)
  then show ?thesis
    by (auto simp add: list_all_iff dest: set_takeWhileD)
qed

lemma mtch_CapPlus_SomeD:
  assumes "mtch (CapPlus c # r) s = Some (caps, rest)"
  shows "\<exists>n caps'. 1 \<le> n \<and> n \<le> length (takeWhile (inCls c) s) \<and> caps = take n s # caps'
      \<and> mtch r (drop n s) = Some (caps', rest)"
proof -
  from assms obtain n where n: "1 \<le> n" "n \<le> length (takeWhile (inCls c) s)"
    "map_option (\<lambda>(caps, rest). (take n s # caps, rest)) (mtch r (drop n s)) = Some (caps, rest)"
    by (auto dest!: firstSome_SomeD)
  from n(3) obtain caps' where "mtch r (drop n s) = Some (caps', rest)" "caps = take n s # caps'"
    by auto
  with n(1,2) show ?thesis
    by blast
qed

lemma mtch_Star_SomeD:
  assumes "mtch (Star c # r) s = Some (caps, rest)"
  shows "\<exists>n. mtch r (drop n s) = Some (caps, rest)"
  using assms by (auto dest!: firstSome_SomeD)

lemma mtch_One_SomeD:
  assumes "mtch (One c # r) s = Some (caps, rest)"
  shows "\<exists>x xs. s = x # xs \<and> inCls c x \<and> mtch r xs = Some (caps, rest)"
  using assms by (cases s) (auto split: if_splits)

lemma word_capture:
  assumes "1 \<le> n" and "n \<le> length (takeWhile (inCls Word) s)"
  shows "take n s \<noteq> [] \<and> list_all isWord (take n s)"
proof -
  have "inCls Word = isWord"
    by (simp add: fun_eq_iff)
  with take_takeWhile_all [OF assms(2)] have "list_all isWord (take n s)"
    by simp
  moreover have "s \<noteq> []"
    using assms by auto
  ultimately show ?thesis
    using assms(1) by auto
qed

lemma mtch_matchPattern_caps:
  assumes "mtch matchPattern s = Some (caps, rest)"
  shows "\<exists>a b. caps = [a, b] \<and> a \<noteq> [] \<and> list_all isWord a \<and> b \<noteq> [] \<and> list_all isWord b"
proof -
  from assms obtain n1 caps1 where 1: "1 \<le> n1" "n1 \<le> length (takeWhile (inCls Word) s)"
      "caps = take n1 s # caps1"
      "mtch [Star Space, One Sep, Star Space, CapPlus Word] (drop n1 s) = Some (caps1, rest)"
    unfolding matchPattern_def by (blast dest: mtch_CapPlus_SomeD)
  from 1(4) obtain s2 where 2: "mtch [One Sep, Star Space, CapPlus Word] s2 = Some (caps1, rest)"
    by (blast dest: mtch_Star_SomeD)
  then obtain s3 where 3: "mtch [Star Space, CapPlus Word] s3 = Some (caps1, rest)"
    by (blast dest: mtch_One_SomeD)
  then obtain s4 where 4: "mtch [CapPlus Word] s4 = Some (caps1, rest)"
    by (blast dest: mtch_Star_SomeD)
  then obtain n2 caps2 where 5: "1 \<le> n2" "n2 \<le> length (takeWhile (inCls Word) s4)"
      "caps1 = take n2 s4 # caps2" "mtch [] (drop n2 s4) = Some (caps2, rest)"
    by (blast dest: mtch_CapPlus_SomeD)
  from 5(4) have "caps2 = []"
    by simp
  with 1(3) 5(3) have "caps = [take n1 s, take n2 s4]"
    by simp
  with word_capture [OF 1(1,2)] word_capture [OF 5(1,2)] show ?thesis
    by blast
qed

lemma execAll_words:
  "(a, b) \<in> set (execAll s) \<Longrightarrow> a \<noteq> [] \<and> list_all isWord a \<and> b \<noteq> [] \<and> list_all isWord b"
proof (induction s rule: execAll.induct)
  case (1 s)
  show ?case
  proof (cases "mtch matchPattern s")
    case None
    show ?thesis
    proof (cases s)
      case Nil
      with None "1.prems" show ?thesis
        by (simp add: execAll.simps [of "[]"])
    next
      case (Cons c s')
      with None "1.prems" have "(a, b) \<in> set (execAll s')"
        by (simp add: execAll.simps [of "c # s'"])
      with "1.IH"(1) [OF None Cons] show ?thesis .
    qed
  next
    case (Some p)
    obtain caps rest where p: "p = (caps, rest)"
      by (cases p)
    from mtch_matchPattern_caps [OF Some [unfolded p]] obtain a' b' where
      ab: "caps = [a', b']" "a' \<noteq> []" "list_all isWord a'" "b' \<noteq> []" "list_all isWord b'"
      by blast
    from "1.prems" Some p ab(1) have "(a, b) = (a', b') \<or> (a, b) \<in> set (execAll rest)"
      by (simp add: execAll.simps [of s])
    then show ?thesis
    proof
      assume "(a, b) = (a', b')"
      with ab show ?thesis by simp
    next
      assume "(a, b) \<in> set (execAll rest)"
      with "1.IH"(2) [OF Some p [symmetric]] show ?thesis .
    qed
  qed
qed

lemma isWord_not_isSpace: "isWord c \<Longrightarrow> \<not> isSpace c"
  by (auto simp add: isWord_def isSpace_def Let_def)

lemma dropWhile_isSpace_word: "list_all isWord w \<Longrightarrow> dropWhile isSpace w = w"
  by (cases w) (simp_all add: isWord_not_isSpace)

lemma trim_word: "list_all isWord w \<Longrightarrow> trim w = w"
proof -
  assume w: "list_all isWord w"
  then have "list_all isWord (rev w)"
    by (simp add: list_all_iff)
  with w show ?thesis
    by (simp add: trim_def dropWhile_isSpace_word)
qed

text \<open>
  Claim C10. Every record that \<open>getMatchResults\<close> returns has a winner and a loser
  that are non-empty and consist of word characters only; it comes from a comment of
  the input, carries that comment's \<open>created_at\<close> as its date, and its winner and
  loser are the two captures of one iteration of the loop, which \<open>trim\<close> leaves as
  they are.\<close>

theorem extracted_tokens_are_words:
  assumes "r \<in> set (fst (getMatchResults (Inr comments) w))"
  shows "winner r \<noteq> [] \<and> list_all isWord (winner r)
    \<and> loser r \<noteq> [] \<and> list_all isWord (loser r)
    \<and> (\<exists>c\<in>set comments. \<exists>(a, b)\<in>set (execAll (body c)).
          trim a = a \<and> trim b = b \<and> r = \<lparr>winner = a, loser = b, date = created_at c\<rparr>)"
proof -
  from assms obtain c a b where c: "c \<in> set comments" and ab: "(a, b) \<in> set (execAll (body c))"
    and r: "r = \<lparr>winner = trim a, loser = trim b, date = created_at c\<rparr>"
    by (auto simp add: getMatchResults_def commentMatches_def)
  from execAll_words [OF ab] have words: "a \<noteq> []" "list_all isWord a" "b \<noteq> []" "list_all isWord b"
    by simp_all
  then have t: "trim a = a" "trim b = b"
    by (simp_all add: trim_word)
  with r have r': "r = \<lparr>winner = a, loser = b, date = created_at c\<rparr>"
    by simp
  with words have "winner r \<noteq> [] \<and> list_all isWord (winner r) \<and> loser r \<noteq> [] \<and> list_all isWord (loser r)"
    by simp
  moreover from c ab t r' have "\<exists>c\<in>set comments. \<exists>(a, b)\<in>set (execAll (body c)).
      trim a = a \<and> trim b = b \<and> r = \<lparr>winner = a, loser = b, date = created_at c\<rparr>"
    by blast
  ultimately show ?thesis
    by blast
qed

lemma getMatchResults_sampleComments:
  "fst (getMatchResults (Inr sampleComments) world0) =
     [\<lparr>winner = ''Jerry'', loser = ''Kyle'', date = ''2024-02-03T10:00:00Z''\<rparr>,
      \<lparr>winner = ''Thomas'', loser = ''eat'', date = ''2024-02-04T09:30:00Z''\<rparr>,
      \<lparr>winner = ''R'', loser = ''ymond'', date = ''2024-02-04T09:30:00Z''\<rparr>]"
  by (simp add: sampleComments_def getMatchResults_def commentMatches_def regex_defs trim_def)

theorem extracted_tokens_are_words_witness:
  "\<lparr>winner = ''Jerry'', loser = ''Kyle'', date = ''2024-02-03T10:00:00Z''\<rparr>
      \<in> set (fst (getMatchResults (Inr sampleComments) world0))
   \<and> list_all isWord ''Jerry'' \<and> list_all isWord ''Kyle''
   \<and> (\<exists>c\<in>set sampleComments. created_at c = ''2024-02-03T10:00:00Z'')"
proof -
  let ?r = "\<lparr>winner = ''Jerry'', loser = ''Kyle'', date = ''2024-02-03T10:00:00Z''\<rparr>"
  have h: "?r \<in> set (fst (getMatchResults (Inr sampleComments) world0))"
    by (simp add: getMatchResults_sampleComments)
  from extracted_tokens_are_words [OF h] have "list_all isWord ''Jerry''" "list_all isWord ''Kyle''"
    "\<exists>c\<in>set sampleComments. created_at c = ''2024-02-03T10:00:00Z''"
    by auto
  with h show ?thesis
    by blast
qed

lemma execAll_greater: "execAll ''Thomas > Raymond'' = [(''Thomas'', ''Raymond'')]"
  by (simp add: regex_defs)

lemma execAll_beat: "execAll ''Thomas beat Raymond'' = [(''Thomas'', ''eat''), (''R'', ''ymond'')]"
  by (simp add: regex_defs)

text \<open>
  Claim C1. The claim asks for one record per occurrence of a token, then \<open>>\<close> or the
  word \<open>beat\<close>, then a token. The comment \<open>Thomas beat Raymond\<close> has one such
  occurrence, with winner \<open>Thomas\<close> and loser \<open>Raymond\<close>. The program returns two
  records: the class \<open>[>beat]\<close> takes the single letter \<open>b\<close> as the separator, so
  the first loser is \<open>eat\<close>, and in \<open>Raymond\<close> the letter \<open>a\<close> separates \<open>R\<close>
  from \<open>ymond\<close>.\<close>

theorem beat_is_read_letter_by_letter:
  "fst (getMatchResults
      (Inr [\<lparr>body = ''Thomas beat Raymond'', created_at = ''2024-02-04T09:30:00Z''\<rparr>]) world0)
     = [\<lparr>winner = ''Thomas'', loser = ''eat'', date = ''2024-02-04T09:30:00Z''\<rparr>,
        \<lparr>winner = ''R'', loser = ''ymond'', date = ''2024-02-04T09:30:00Z''\<rparr>]"
  by (simp add: getMatchResults_def commentMatches_def regex_defs trim_def)

section \<open>Ranking Aggregator: the counters\<close>

lemma truthy_ensure: "truthy (ensure n ps) n"
  by (simp add: ensure_def truthy_def own_def)

lemma truthy_ensure_mono: "truthy ps k \<Longrightarrow> truthy (ensure n ps) k"
  by (simp add: ensure_def truthy_def own_def)

lemma own_iff: "own ps n \<longleftrightarrow> map_of ps n \<noteq> None"
  by (simp add: own_def map_of_eq_None_iff)

lemma map_of_ensure:
  "map_of (ensure n ps) = (if truthy ps n then map_of ps else (map_of ps)(n \<mapsto> (0, 0)))"
  by (auto simp add: ensure_def truthy_def own_iff map_add_def fun_eq_iff split: option.splits)

lemma distinct_ensure: "distinct (map fst ps) \<Longrightarrow> distinct (map fst (ensure n ps))"
  by (simp add: ensure_def truthy_def own_def)

lemma map_of_bump:
  "map_of (map (\<lambda>(k, v). if k = n then (k, f v) else (k, v)) ps) k
     = (if k = n then map_option f (map_of ps k) else map_of ps k)"
  by (induction ps) auto

lemma fst_bump: "map fst (map (\<lambda>(k, v). if k = n then (k, f v) else (k, v)) ps) = map fst ps"
  by (induction ps) auto

lemma incWin_eq:
  "incWin n (ps, g) =
     (if own ps n then (map (\<lambda>(k, v). if k = n then (k, (\<lambda>(w, l). (w + 1, l)) v) else (k, v)) ps, g)
      else (ps, insert (n, ''win'') g))"
  by (auto simp add: incWin_def split: prod.splits intro!: map_cong)

lemma incLose_eq:
  "incLose n (ps, g) =
     (if own ps n then (map (\<lambda>(k, v). if k = n then (k, (\<lambda>(w, l). (w, l + 1)) v) else (k, v)) ps, g)
      else (ps, insert (n, ''lose'') g))"
  by (auto simp add: incLose_def split: prod.splits intro!: map_cong)

lemma map_of_incWin:
  "map_of (fst (incWin n (ps, g))) k
     = (if k = n then map_option (\<lambda>(w, l). (w + 1, l)) (map_of ps k) else map_of ps k)"
  by (cases "map_of ps n") (simp_all add: incWin_eq map_of_bump own_iff)

lemma map_of_incLose:
  "map_of (fst (incLose n (ps, g))) k
     = (if k = n then map_option (\<lambda>(w, l). (w, l + 1)) (map_of ps k) else map_of ps k)"
  by (cases "map_of ps n") (simp_all add: incLose_eq map_of_bump own_iff)

lemma keys_incWin: "map fst (fst (incWin n (ps, g))) = map fst ps"
  by (simp only: incWin_eq fst_bump fst_conv if_distrib [of fst] if_distrib [of "map fst"] if_cancel)

lemma keys_incLose: "map fst (fst (incLose n (ps, g))) = map fst ps"
  by (simp only: incLose_eq fst_bump fst_conv if_distrib [of fst] if_distrib [of "map fst"] if_cancel)

lemma fst_recordMatch:
  "fst (recordMatch m (ps, g))
     = fst (incLose (loser m) (fst (incWin (winner m) (ensure (loser m) (ensure (winner m) ps), g)), g))"
  by (simp add: recordMatch_def incLose_eq incWin_eq)

lemma distinct_recordMatch:
  "distinct (map fst ps) \<Longrightarrow> distinct (map fst (fst (recordMatch m (ps, g))))"
  by (simp only: fst_recordMatch keys_incLose keys_incWin distinct_ensure)

lemma wonBy_snoc: "wonBy (ms @ [m]) k = wonBy ms k + (if winner m = k then 1 else 0)"
  by (simp add: wonBy_def)

lemma lostBy_snoc: "lostBy (ms @ [m]) k = lostBy ms k + (if loser m = k then 1 else 0)"
  by (simp add: lostBy_def)

lemma played_snoc: "played (ms @ [m]) k \<longleftrightarrow> played ms k \<or> k = winner m \<or> k = loser m"
  by (auto simp add: played_def)

lemma wonBy_0: "\<not> played ms k \<Longrightarrow> wonBy ms k = 0"
  by (auto simp add: played_def wonBy_def filter_empty_conv)

lemma lostBy_0: "\<not> played ms k \<Longrightarrow> lostBy ms k = 0"
  by (auto simp add: played_def lostBy_def filter_empty_conv)

lemma truthy_iff: "truthy ps n \<longleftrightarrow> map_of ps n \<noteq> None \<or> n \<in> set inheritedNames"
  by (simp add: truthy_def own_iff)

lemma tally_recordMatch:
  assumes "map_of ps = tally done"
  shows "map_of (fst (recordMatch m (ps, g))) = tally (done @ [m])"
proof
  fix k
  let ?w = "winner m" and ?l = "loser m"
  define ps1 where "ps1 = ensure ?w ps"
  define ps2 where "ps2 = ensure ?l ps1"
  have p1: "map_of ps1 = (if played done ?w \<or> ?w \<in> set inheritedNames then tally done
      else (tally done)(?w \<mapsto> (0, 0)))"
    by (simp add: ps1_def map_of_ensure truthy_iff assms) (simp add: tally_def)
  have p2: "map_of ps2 = (if map_of ps1 ?l \<noteq> None \<or> ?l \<in> set inheritedNames then map_of ps1
      else (map_of ps1)(?l \<mapsto> (0, 0)))"
    by (simp add: ps2_def map_of_ensure truthy_iff)
  have "map_of (fst (recordMatch m (ps, g))) k
      = (if k = ?l then map_option (\<lambda>(w, l). (w, l + 1))
            (if k = ?w then map_option (\<lambda>(w, l). (w + 1, l)) (map_of ps2 k) else map_of ps2 k)
         else (if k = ?w then map_option (\<lambda>(w, l). (w + 1, l)) (map_of ps2 k) else map_of ps2 k))"
    by (simp only: fst_recordMatch map_of_incLose map_of_incWin ps1_def ps2_def)
  also have "\<dots> = tally (done @ [m]) k"
    by (simp add: p2 p1) (simp add: tally_def played_snoc wonBy_snoc lostBy_snoc wonBy_0 lostBy_0)
  finally show "map_of (fst (recordMatch m (ps, g))) k = tally (done @ [m]) k" .
qed


lemma fold_recordMatch_pair:
  "fold recordMatch (m # ms) (ps, g)
     = fold recordMatch ms (fst (recordMatch m (ps, g)), snd (recordMatch m (ps, g)))"
  by simp

lemma tally_fold:
  "map_of ps = tally done \<Longrightarrow> map_of (fst (fold recordMatch ms (ps, g))) = tally (done @ ms)"
proof (induction ms arbitrary: ps g "done")
  case Nil
  then show ?case by simp
next
  case (Cons m ms)
  from Cons.IH [OF tally_recordMatch [OF Cons.prems, of m g]] show ?case
    by (simp only: fold_recordMatch_pair append_assoc append_Cons append_Nil)
qed

lemma distinct_fold:
  "distinct (map fst ps) \<Longrightarrow> distinct (map fst (fst (fold recordMatch ms (ps, g))))"
proof (induction ms arbitrary: ps g)
  case Nil
  then show ?case by simp
next
  case (Cons m ms)
  from Cons.IH [OF distinct_recordMatch [OF Cons.prems, of m g]] show ?case
    by (simp only: fold_recordMatch_pair)
qed

lemma tally_Nil: "map_of [] = tally []"
  by (simp add: tally_def played_def fun_eq_iff)

lemma players_tally:
  "map_of (fst (fold recordMatch ms ([], g))) = tally ms"
  using tally_fold [OF tally_Nil, of ms g] by simp

lemma players_distinct: "distinct (map fst (fst (fold recordMatch ms ([], g))))"
  by (rule distinct_fold) simp

lemma players_mem:
  "(k, w, l) \<in> set (fst (fold recordMatch ms ([], g))) \<longleftrightarrow> tally ms k = Some (w, l)"
  using map_of_eq_Some_iff [OF players_distinct, of ms g k "(w, l)"]
  by (simp add: players_tally)

lemma mset_entries: "mset (entries ps) = mset ps"
  by (simp add: entries_def)

lemma set_entries: "set (entries ps) = set ps"
  using mset_entries [of ps] by (metis set_mset_mset)

lemma mset_rankings:
  "mset (fst (fst (calculateRankings ms g)))
     = image_mset toRanking (mset (fst (fold recordMatch ms ([], g))))"
  by (simp add: rankings_eq mset_sortBy mset_entries)

lemma set_rankings:
  "set (fst (fst (calculateRankings ms g))) = toRanking ` set (fst (fold recordMatch ms ([], g)))"
  by (simp add: rankings_eq set_sortBy set_entries)

lemma rankings_mem:
  "r \<in> set (fst (fst (calculateRankings ms g))) \<longleftrightarrow>
     (\<exists>k. played ms k \<and> k \<notin> set inheritedNames \<and> r = toRanking (k, wonBy ms k, lostBy ms k))"
  by (auto simp add: set_rankings players_mem tally_def image_iff split: if_splits)

lemma played_pos: "played ms k \<Longrightarrow> 0 < wonBy ms k + lostBy ms k"
  by (auto simp add: played_def wonBy_def lostBy_def filter_empty_conv)

lemma rankings_played:
  assumes "r \<in> set (fst (fst (calculateRankings ms g)))"
  shows "0 < win r + lose r"
proof -
  from assms obtain k where k: "played ms k" "r = toRanking (k, wonBy ms k, lostBy ms k)"
    by (auto simp add: rankings_mem)
  from played_pos [OF k(1)] show ?thesis
    by (simp add: k(2) toRanking_def)
qed

lemma rankings_entry:
  assumes "r \<in> set (fst (fst (calculateRankings ms g)))"
  shows "total r = win r + lose r \<and> 0 < total r
    \<and> winRate r = fl (of_nat (win r) / of_nat (total r)) \<and> 0 \<le> winRate r \<and> winRate r \<le> 1
    \<and> win r = wonBy ms (player r) \<and> lose r = lostBy ms (player r)"
proof -
  from assms obtain k where k: "played ms k" "r = toRanking (k, wonBy ms k, lostBy ms k)"
    by (auto simp add: rankings_mem)
  have fields: "player r = k" "win r = wonBy ms k" "lose r = lostBy ms k"
    "total r = win r + lose r" "winRate r = fl (of_nat (win r) / of_nat (total r))"
    by (simp_all add: k(2) toRanking_def)
  from played_pos [OF k(1)] have pos: "0 < total r"
    by (simp add: fields)
  then have "(0::rat) < of_nat (total r)"
    by simp
  moreover have "(of_nat (win r) :: rat) \<le> of_nat (total r)"
    by (simp add: fields(4))
  ultimately have q: "(0::rat) \<le> of_nat (win r) / of_nat (total r)"
    "(of_nat (win r) :: rat) / of_nat (total r) \<le> 1"
    by simp_all
  then have "0 \<le> winRate r" "winRate r \<le> 1"
    by (simp_all add: fields(5) fl_nonneg fl_le_1)
  with pos fields show ?thesis
    by simp
qed

lemma rankings_players:
  "player ` set (fst (fst (calculateRankings ms g)))
     = {k. played ms k \<and> k \<notin> set inheritedNames}"
proof (intro set_eqI iffI)
  fix k
  assume "k \<in> player ` set (fst (fst (calculateRankings ms g)))"
  then show "k \<in> {k. played ms k \<and> k \<notin> set inheritedNames}"
    by (auto simp add: rankings_mem toRanking_def)
next
  fix k
  assume "k \<in> {k. played ms k \<and> k \<notin> set inheritedNames}"
  then have "toRanking (k, wonBy ms k, lostBy ms k) \<in> set (fst (fst (calculateRankings ms g)))"
    by (auto simp add: rankings_mem)
  moreover have "player (toRanking (k, wonBy ms k, lostBy ms k)) = k"
    by (simp add: toRanking_def)
  ultimately show "k \<in> player ` set (fst (fst (calculateRankings ms g)))"
    by (metis image_eqI)
qed


lemma wonBy_Cons: "wonBy (m # ms) k = (if k = winner m then 1 else 0) + wonBy ms k"
  by (simp add: wonBy_def)

lemma lostBy_Cons: "lostBy (m # ms) k = (if k = loser m then 1 else 0) + lostBy ms k"
  by (simp add: lostBy_def)

lemma sum_wonBy:
  "finite K \<Longrightarrow> (\<Sum>k\<in>K. wonBy ms k) = length (filter (\<lambda>m. winner m \<in> K) ms)"
proof (induction ms)
  case Nil
  then show ?case by (simp add: wonBy_def)
next
  case (Cons m ms)
  then show ?case by (simp add: wonBy_Cons sum.distrib)
qed

lemma sum_lostBy:
  "finite K \<Longrightarrow> (\<Sum>k\<in>K. lostBy ms k) = length (filter (\<lambda>m. loser m \<in> K) ms)"
proof (induction ms)
  case Nil
  then show ?case by (simp add: lostBy_def)
next
  case (Cons m ms)
  then show ?case by (simp add: lostBy_Cons sum.distrib)
qed

lemma sum_list_map_mset:
  fixes h :: "'a \<Rightarrow> nat"
  assumes "mset xs = image_mset f (mset ys)"
  shows "sum_list (map h xs) = sum_list (map (h \<circ> f) ys)"
proof -
  have "sum_list (map h xs) = sum_mset (image_mset h (mset xs))"
    by (metis mset_map sum_mset_sum_list)
  also have "\<dots> = sum_mset (image_mset (h \<circ> f) (mset ys))"
    by (simp add: assms multiset.map_comp)
  also have "\<dots> = sum_list (map (h \<circ> f) ys)"
    by (metis mset_map sum_mset_sum_list)
  finally show ?thesis .
qed

lemma players_keys:
  "set (map fst (fst (fold recordMatch ms ([], g)))) = {k. played ms k \<and> k \<notin> set inheritedNames}"
proof -
  have "k \<in> set (map fst (fst (fold recordMatch ms ([], g)))) \<longleftrightarrow> tally ms k \<noteq> None" for k
    using map_of_eq_None_iff [of "fst (fold recordMatch ms ([], g))" k]
    by (simp add: players_tally)
  then show ?thesis
    by (simp add: tally_def set_eq_iff)
qed

lemma wins_total:
  "sum_list (map win (fst (fst (calculateRankings ms g))))
     = length (filter (\<lambda>m. winner m \<notin> set inheritedNames) ms)"
proof -
  let ?ps = "fst (fold recordMatch ms ([], g))"
  let ?K = "{k. played ms k \<and> k \<notin> set inheritedNames}"
  have "finite (set (map fst ?ps))"
    by (rule finite_set)
  then have fin: "finite ?K"
    by (simp only: players_keys)
  have "sum_list (map win (fst (fst (calculateRankings ms g)))) = sum_list (map (win \<circ> toRanking) ?ps)"
    by (rule sum_list_map_mset) (rule mset_rankings)
  also have "\<dots> = sum_list (map (wonBy ms \<circ> fst) ?ps)"
    by (rule arg_cong [where f = sum_list], rule map_cong)
      (auto simp add: toRanking_def players_mem tally_def split: if_splits)
  also have "\<dots> = sum_list (map (wonBy ms) (map fst ?ps))"
    by simp
  also have "\<dots> = (\<Sum>k\<in>?K. wonBy ms k)"
    using sum_list_distinct_conv_sum_set [OF players_distinct, of "wonBy ms" ms g]
    by (simp only: players_keys)
  also have "\<dots> = length (filter (\<lambda>m. winner m \<in> ?K) ms)"
    by (rule sum_wonBy [OF fin])
  also have "filter (\<lambda>m. winner m \<in> ?K) ms = filter (\<lambda>m. winner m \<notin> set inheritedNames) ms"
    by (rule filter_cong) (auto simp add: played_def)
  finally show ?thesis .
qed

lemma losses_total:
  "sum_list (map lose (fst (fst (calculateRankings ms g))))
     = length (filter (\<lambda>m. loser m \<notin> set inheritedNames) ms)"
proof -
  let ?ps = "fst (fold recordMatch ms ([], g))"
  let ?K = "{k. played ms k \<and> k \<notin> set inheritedNames}"
  have "finite (set (map fst ?ps))"
    by (rule finite_set)
  then have fin: "finite ?K"
    by (simp only: players_keys)
  have "sum_list (map lose (fst (fst (calculateRankings ms g)))) = sum_list (map (lose \<circ> toRanking) ?ps)"
    by (rule sum_list_map_mset) (rule mset_rankings)
  also have "\<dots> = sum_list (map (lostBy ms \<circ> fst) ?ps)"
    by (rule arg_cong [where f = sum_list], rule map_cong)
      (auto simp add: toRanking_def players_mem tally_def split: if_splits)
  also have "\<dots> = sum_list (map (lostBy ms) (map fst ?ps))"
    by simp
  also have "\<dots> = (\<Sum>k\<in>?K. lostBy ms k)"
    using sum_list_distinct_conv_sum_set [OF players_distinct, of "lostBy ms" ms g]
    by (simp only: players_keys)
  also have "\<dots> = length (filter (\<lambda>m. loser m \<in> ?K) ms)"
    by (rule sum_lostBy [OF fin])
  also have "filter (\<lambda>m. loser m \<in> ?K) ms = filter (\<lambda>m. loser m \<notin> set inheritedNames) ms"
    by (rule filter_cong) (auto simp add: played_def)
  finally show ?thesis .
qed


lemma fst_incWin_globals: "fst (incWin n (ps, g)) = fst (incWin n (ps, g'))"
  by (simp add: incWin_eq)

lemma fst_incLose_globals: "fst (incLose n (ps, g)) = fst (incLose n (ps, g'))"
  by (simp add: incLose_eq)

lemma fst_recordMatch_globals: "fst (recordMatch m (ps, g)) = fst (recordMatch m (ps, g'))"
  by (simp add: fst_recordMatch incWin_eq incLose_eq)

lemma fst_fold_globals:
  "fst (fold recordMatch ms (ps, g)) = fst (fold recordMatch ms (ps, g'))"
proof (induction ms arbitrary: ps g g')
  case Nil
  show ?case by simp
next
  case (Cons m ms)
  have "fst (fold recordMatch (m # ms) (ps, g))
      = fst (fold recordMatch ms (fst (recordMatch m (ps, g)), snd (recordMatch m (ps, g))))"
    by (simp only: fold_recordMatch_pair)
  also have "\<dots> = fst (fold recordMatch ms (fst (recordMatch m (ps, g')), snd (recordMatch m (ps, g'))))"
    by (simp only: fst_recordMatch_globals [of m ps g g']
        Cons.IH [of _ "snd (recordMatch m (ps, g))" "snd (recordMatch m (ps, g'))"])
  also have "\<dots> = fst (fold recordMatch (m # ms) (ps, g'))"
    by (simp only: fold_recordMatch_pair)
  finally show ?case .
qed

lemma calculateRankings_fst:
  "fst (calculateRankings ms g)
     = (sortBy compareRank (map toRanking (entries (fst (fold recordMatch ms ([], g))))), ms)"
  by (simp add: calculateRankings_def split: prod.splits)

lemma calculateRankings_snd: "snd (calculateRankings ms g) = snd (fold recordMatch ms ([], g))"
  by (simp add: calculateRankings_def split: prod.splits)

lemma calculateRankings_deterministic:
  "fst (calculateRankings ms g) = fst (calculateRankings ms g')"
  by (simp only: calculateRankings_fst fst_fold_globals [of ms "[]" g g'])

lemma calculateRankings_matches: "snd (fst (calculateRankings ms g)) = ms"
  by (simp add: calculateRankings_fst)

lemma snd_incWin:
  "snd (incWin n p) = (if own (fst p) n then snd p else insert (n, ''win'') (snd p))"
  by (cases p) (simp add: incWin_eq)

lemma snd_incLose:
  "snd (incLose n p) = (if own (fst p) n then snd p else insert (n, ''lose'') (snd p))"
  by (cases p) (simp add: incLose_eq)

lemma snd_recordMatch:
  assumes "map_of ps = tally done"
  shows "snd (recordMatch m (ps, g)) = g \<union> writes [m]"
proof -
  let ?w = "winner m" and ?l = "loser m"
  define ps2 where "ps2 = ensure ?l (ensure ?w ps)"
  have dom: "map_of ps2 k \<noteq> None \<longleftrightarrow> k \<notin> set inheritedNames \<and> (played done k \<or> k = ?w \<or> k = ?l)" for k
    by (auto simp add: ps2_def map_of_ensure truthy_iff assms tally_def)
  have w: "own ps2 ?w \<longleftrightarrow> ?w \<notin> set inheritedNames"
    unfolding own_iff by (simp only: dom) simp
  have "map_of (fst (incWin ?w (ps2, g))) ?l = None \<longleftrightarrow> map_of ps2 ?l = None"
    by (simp add: map_of_incWin)
  then have l: "own (fst (incWin ?w (ps2, g))) ?l \<longleftrightarrow> ?l \<notin> set inheritedNames"
    unfolding own_iff by (simp only: dom) simp
  have "snd (recordMatch m (ps, g)) = snd (incLose ?l (incWin ?w (ps2, g)))"
    by (simp add: recordMatch_def ps2_def)
  also have "\<dots> = (if ?l \<in> set inheritedNames then insert (?l, ''lose'') (snd (incWin ?w (ps2, g)))
      else snd (incWin ?w (ps2, g)))"
    by (simp add: snd_incLose l)
  also have "snd (incWin ?w (ps2, g)) = (if ?w \<in> set inheritedNames then insert (?w, ''win'') g else g)"
    by (simp add: snd_incWin w)
  finally show ?thesis
    by (auto simp add: writes_def)
qed

lemma writes_append: "writes (xs @ ys) = writes xs \<union> writes ys"
  by (auto simp add: writes_def)

lemma snd_fold:
  "map_of ps = tally done \<Longrightarrow> snd (fold recordMatch ms (ps, g)) = g \<union> writes ms"
proof (induction ms arbitrary: ps g "done")
  case Nil
  show ?case by (simp add: writes_def)
next
  case (Cons m ms)
  have "snd (fold recordMatch (m # ms) (ps, g))
      = snd (fold recordMatch ms (fst (recordMatch m (ps, g)), snd (recordMatch m (ps, g))))"
    by (simp only: fold_recordMatch_pair)
  also have "\<dots> = snd (recordMatch m (ps, g)) \<union> writes ms"
    by (rule Cons.IH [OF tally_recordMatch [OF Cons.prems]])
  also have "\<dots> = g \<union> writes (m # ms)"
    using writes_append [of "[m]" ms] by (simp add: snd_recordMatch [OF Cons.prems] Un_assoc)
  finally show ?case .
qed

lemma calculateRankings_globals: "snd (calculateRankings ms g) = g \<union> writes ms"
  by (simp only: calculateRankings_snd snd_fold [OF tally_Nil])

text \<open>
  Claim C3. The claim holds for the fields of every entry (lemma \<open>rankings_entry\<close>),
  but the players of the ranking are not all the names of the input: a name that
  \<open>Object.prototype\<close> provides is never entered into \<open>players\<close> (lemma
  \<open>rankings_players\<close>). For the one match \<open>constructor > Bob\<close> the ranking holds
  \<open>Bob\<close> alone.\<close>

theorem inherited_name_is_not_ranked:
  "fst (fst (calculateRankings [mk ''constructor'' ''Bob''] {}))
     = [\<lparr>player = ''Bob'', win = 0, lose = 1, total = 1, winRate = 0\<rparr>]
   \<and> ''constructor'' \<in> winner ` set [mk ''constructor'' ''Bob'']
   \<and> ''constructor'' \<notin> player ` set (fst (fst (calculateRankings [mk ''constructor'' ''Bob''] {})))"
  by (simp add: mk_def aggregate_defs)

text \<open>
  Claim C9. The wins of a ranking add up to the number of matches whose winner is not
  a name that \<open>Object.prototype\<close> provides (lemma \<open>wins_total\<close>; likewise
  \<open>losses_total\<close>), which is less than the number of matches as soon as such a name
  wins: for the one match \<open>constructor > Bob\<close> the wins add up to 0.\<close>

theorem inherited_winner_is_not_counted:
  "sum_list (map win (fst (fst (calculateRankings [mk ''constructor'' ''Bob''] {})))) = 0
   \<and> sum_list (map lose (fst (fst (calculateRankings [mk ''constructor'' ''Bob''] {})))) = 1
   \<and> length [mk ''constructor'' ''Bob''] = 1"
  by (simp add: mk_def aggregate_defs)

text \<open>
  Claim C7. The ranking does not depend on anything but the matches (lemma
  \<open>calculateRankings_deterministic\<close>), and the matches are returned as they came
  (lemma \<open>calculateRankings_matches\<close>); but the function does write outside itself
  (lemma \<open>calculateRankings_globals\<close>): for the one match \<open>constructor > Bob\<close>,
  \<open>players[match.winner]\<close> is the built-in \<open>Object\<close>, whose property \<open>win\<close> the
  increment sets.\<close>

theorem inherited_winner_is_written_to:
  "snd (calculateRankings [mk ''constructor'' ''Bob''] {}) = {(''constructor'', ''win'')}
   \<and> snd (calculateRankings [mk ''constructor'' ''Bob''] {}) \<noteq> {}"
  by (simp add: mk_def aggregate_defs)

end
